theory Spec2Isabelle
  imports Main "HOL-Library.Word" "HOL-Library.DAList"
begin

unbundle bit_operations_syntax

section \<open>Python values used by \<open>aegis_sdk/aegis_protector.py\<close>\<close>

subsection \<open>\<open>str\<close>\<close>

text \<open>
  A Python \<open>str\<close> is a sequence of Unicode code points, here a list of natural numbers.
  The code points are the numbers below \<open>0x110000\<close>, the surrogates \<open>0xD800\<close> to
  \<open>0xDFFF\<close> among them: a \<open>str\<close> can hold a lone surrogate. No \<open>str\<close> holds a number from
  \<open>0x110000\<close> on; the lists that do stand for nothing, and what is proved of every list
  holds of every \<open>str\<close>. \<open>lit\<close> gives the \<open>str\<close> of a literal of ASCII characters.

  \<open>Optional[str]\<close> is \<open>pystr option\<close>, with \<open>None\<close> for the default argument.
\<close>

type_synonym pystr = "nat list"

definition lit :: "string \<Rightarrow> pystr" where
  "lit s = map of_char s"

text \<open>The exceptions that the methods can raise: a failed dict subscript, \<open>ValueError\<close>
  with its message, and the failure of \<open>str.encode\<close>.\<close>

datatype error = KeyError pystr | ValueError pystr | UnicodeEncodeError

text \<open>
  \<open>text.encode()\<close> is UTF-8 with strict error handling: one to four bytes for each code
  point, and \<open>UnicodeEncodeError\<close> when the \<open>str\<close> holds a surrogate.
\<close>

definition utf8 :: "nat \<Rightarrow> 8 word list option" where
  "utf8 n =
     (if n < 0x80 then Some [word_of_nat n]
      else if n < 0x800 then Some [word_of_nat (0xC0 + n div 64), word_of_nat (0x80 + n mod 64)]
      else if 0xD800 \<le> n \<and> n \<le> 0xDFFF then None
      else if n < 0x10000
        then Some [word_of_nat (0xE0 + n div 4096), word_of_nat (0x80 + n div 64 mod 64),
                   word_of_nat (0x80 + n mod 64)]
      else if n < 0x110000
        then Some [word_of_nat (0xF0 + n div 262144), word_of_nat (0x80 + n div 4096 mod 64),
                   word_of_nat (0x80 + n div 64 mod 64), word_of_nat (0x80 + n mod 64)]
      else None)"

fun encode :: "pystr \<Rightarrow> error + 8 word list" where
  "encode [] = Inr []"
| "encode (n # ns) =
     (case utf8 n of
        None \<Rightarrow> Inl UnicodeEncodeError
      | Some bs \<Rightarrow> (case encode ns of Inl e \<Rightarrow> Inl e | Inr rest \<Rightarrow> Inr (bs @ rest)))"

text \<open>
  \<open>str.upper()\<close> maps the cased characters through the Unicode tables of the interpreter
  (\<open>e\<close> with acute accent to \<open>E\<close> with acute accent, sharp s to \<open>SS\<close>). The tables are
  not part of the repository: the case mapping is a parameter \<open>upper\<close> of the methods
  below, and every result is proved for every function in its place. On a \<open>str\<close> of ASCII
  characters \<open>str.upper()\<close> is \<open>ascii_upper\<close>, which is put for the parameter where a
  result is applied to concrete ASCII categories.
\<close>

definition ascii_upper :: "pystr \<Rightarrow> pystr" where
  "ascii_upper s = map (\<lambda>n. if 97 \<le> n \<and> n \<le> 122 then n - 32 else n) s"

subsection \<open>\<open>Dict[str, str]\<close>\<close>

text \<open>
  A Python dict keeps its items in insertion order and has no two items with the same key:
  an association list with distinct keys. Assigning to a key that is present replaces the
  value in place, assigning to a new key appends an item; this is \<open>AList.update\<close>.
\<close>

type_synonym py_dict = "(pystr, pystr) alist"

definition contains :: "py_dict \<Rightarrow> pystr \<Rightarrow> bool" where
  \<comment> \<open>\<open>k in d\<close>\<close>
  "contains d k = (DAList.lookup d k \<noteq> None)"

definition getitem :: "py_dict \<Rightarrow> pystr \<Rightarrow> error + pystr" where
  \<comment> \<open>\<open>d[k]\<close>, which raises \<open>KeyError\<close> on a missing key\<close>
  "getitem d k = (case DAList.lookup d k of None \<Rightarrow> Inl (KeyError k) | Some v \<Rightarrow> Inr v)"

definition setitem :: "py_dict \<Rightarrow> pystr \<Rightarrow> pystr \<Rightarrow> py_dict" where
  \<comment> \<open>\<open>d[k] = v\<close>\<close>
  "setitem d k v = DAList.update k v d"

definition items :: "py_dict \<Rightarrow> (pystr \<times> pystr) list" where
  \<comment> \<open>\<open>d.items()\<close>, in iteration order\<close>
  "items d = DAList.impl_of d"

definition len :: "py_dict \<Rightarrow> nat" where
  \<comment> \<open>\<open>len(d)\<close>\<close>
  "len d = length (DAList.impl_of d)"

section \<open>\<open>hashlib.sha256\<close>\<close>

text \<open>
  The hash function of the standard library, written out from FIPS 180-4: 32-bit words
  with wrap-around addition, the message padded to a multiple of 64 bytes, one compression
  of 64 rounds per block.
\<close>

definition rotr :: "nat \<Rightarrow> 32 word \<Rightarrow> 32 word" where
  "rotr n x = drop_bit n x OR push_bit (32 - n) x"

definition Ch :: "32 word \<Rightarrow> 32 word \<Rightarrow> 32 word \<Rightarrow> 32 word" where
  "Ch x y z = (x AND y) XOR (NOT x AND z)"

definition Maj :: "32 word \<Rightarrow> 32 word \<Rightarrow> 32 word \<Rightarrow> 32 word" where
  "Maj x y z = (x AND y) XOR (x AND z) XOR (y AND z)"

definition bsig0 :: "32 word \<Rightarrow> 32 word" where
  "bsig0 x = rotr 2 x XOR rotr 13 x XOR rotr 22 x"

definition bsig1 :: "32 word \<Rightarrow> 32 word" where
  "bsig1 x = rotr 6 x XOR rotr 11 x XOR rotr 25 x"

definition ssig0 :: "32 word \<Rightarrow> 32 word" where
  "ssig0 x = rotr 7 x XOR rotr 18 x XOR drop_bit 3 x"

definition ssig1 :: "32 word \<Rightarrow> 32 word" where
  "ssig1 x = rotr 17 x XOR rotr 19 x XOR drop_bit 10 x"

definition K256 :: "32 word list" where
  \<comment> \<open>the first 32 bits of the fractional parts of the cube roots of the first 64 primes\<close>
  "K256 =
    [0x428A2F98, 0x71374491, 0xB5C0FBCF, 0xE9B5DBA5, 0x3956C25B, 0x59F111F1, 0x923F82A4, 0xAB1C5ED5,
     0xD807AA98, 0x12835B01, 0x243185BE, 0x550C7DC3, 0x72BE5D74, 0x80DEB1FE, 0x9BDC06A7, 0xC19BF174,
     0xE49B69C1, 0xEFBE4786, 0x0FC19DC6, 0x240CA1CC, 0x2DE92C6F, 0x4A7484AA, 0x5CB0A9DC, 0x76F988DA,
     0x983E5152, 0xA831C66D, 0xB00327C8, 0xBF597FC7, 0xC6E00BF3, 0xD5A79147, 0x06CA6351, 0x14292967,
     0x27B70A85, 0x2E1B2138, 0x4D2C6DFC, 0x53380D13, 0x650A7354, 0x766A0ABB, 0x81C2C92E, 0x92722C85,
     0xA2BFE8A1, 0xA81A664B, 0xC24B8B70, 0xC76C51A3, 0xD192E819, 0xD6990624, 0xF40E3585, 0x106AA070,
     0x19A4C116, 0x1E376C08, 0x2748774C, 0x34B0BCB5, 0x391C0CB3, 0x4ED8AA4A, 0x5B9CCA4F, 0x682E6FF3,
     0x748F82EE, 0x78A5636F, 0x84C87814, 0x8CC70208, 0x90BEFFFA, 0xA4506CEB, 0xBEF9A3F7, 0xC67178F2]"

type_synonym hstate =
  "32 word \<times> 32 word \<times> 32 word \<times> 32 word \<times> 32 word \<times> 32 word \<times> 32 word \<times> 32 word"

definition H256 :: hstate where
  \<comment> \<open>the first 32 bits of the fractional parts of the square roots of the first 8 primes\<close>
  "H256 = (0x6A09E667, 0xBB67AE85, 0x3C6EF372, 0xA54FF53A,
           0x510E527F, 0x9B05688C, 0x1F83D9AB, 0x5BE0CD19)"

definition be64 :: "64 word \<Rightarrow> 8 word list" where
  \<comment> \<open>the eight bytes of a 64-bit number, most significant first\<close>
  "be64 n = map (\<lambda>i. ucast (drop_bit (8 * i) n)) [7, 6, 5, 4, 3, 2, 1, 0]"

definition pad :: "8 word list \<Rightarrow> 8 word list" where
  \<comment> \<open>a 1 bit, zero bits up to 56 bytes modulo 64, then the length in bits\<close>
  "pad m = m @ [0x80] @ replicate ((119 - length m mod 64) mod 64) 0
             @ be64 (word_of_nat (8 * length m))"

definition be32 :: "8 word list \<Rightarrow> 32 word" where
  "be32 bs = foldl (\<lambda>acc b. push_bit 8 acc OR ucast b) 0 bs"

definition blocks :: "8 word list \<Rightarrow> 32 word list list" where
  \<comment> \<open>the 64-byte blocks, each as sixteen big-endian words\<close>
  "blocks bs = map (\<lambda>i. map (\<lambda>j. be32 (take 4 (drop (64 * i + 4 * j) bs))) [0..<16])
                   [0..<length bs div 64]"

fun extend :: "nat \<Rightarrow> 32 word list \<Rightarrow> 32 word list" where
  \<comment> \<open>the message schedule, latest word first: \<open>ws = [W(t-1), ..., W(0)]\<close>\<close>
  "extend 0 ws = ws"
| "extend (Suc n) ws =
     extend n ((ssig1 (ws ! 1) + ws ! 6 + ssig0 (ws ! 14) + ws ! 15) # ws)"

definition schedule :: "32 word list \<Rightarrow> 32 word list" where
  "schedule blk = rev (extend 48 (rev blk))"

definition round :: "hstate \<Rightarrow> 32 word \<times> 32 word \<Rightarrow> hstate" where
  "round v kw =
     (case v of (a, b, c, d, e, f, g, h) \<Rightarrow>
      case kw of (k, w) \<Rightarrow>
        let t1 = h + bsig1 e + Ch e f g + k + w;
            t2 = bsig0 a + Maj a b c
        in (t1 + t2, a, b, c, d + t1, e, f, g))"

definition add8 :: "hstate \<Rightarrow> hstate \<Rightarrow> hstate" where
  "add8 u v =
     (case u of (a, b, c, d, e, f, g, h) \<Rightarrow>
      case v of (a', b', c', d', e', f', g', h') \<Rightarrow>
        (a + a', b + b', c + c', d + d', e + e', f + f', g + g', h + h'))"

definition compress :: "hstate \<Rightarrow> 32 word list \<Rightarrow> hstate" where
  "compress hs blk = add8 hs (foldl round hs (zip K256 (schedule blk)))"

definition sha256 :: "8 word list \<Rightarrow> hstate" where
  "sha256 m = foldl compress H256 (blocks (pad m))"

definition hex_digit :: "nat \<Rightarrow> char" where
  "hex_digit n = ''0123456789abcdef'' ! n"

definition hex32 :: "32 word \<Rightarrow> string" where
  "hex32 w = map (\<lambda>i. hex_digit (unat (drop_bit (4 * i) w AND 0xf))) [7, 6, 5, 4, 3, 2, 1, 0]"

definition hexdigest :: "hstate \<Rightarrow> string" where
  "hexdigest hs =
     (case hs of (a, b, c, d, e, f, g, h) \<Rightarrow>
        hex32 a @ hex32 b @ hex32 c @ hex32 d @ hex32 e @ hex32 f @ hex32 g @ hex32 h)"

section \<open>\<open>class AegisProtector\<close>\<close>

record protector =
  mapping :: py_dict
  reverse_mapping :: py_dict

text \<open>
  A method takes the object and returns what the call gives, a value or the exception
  raised, together with the object after the call.
\<close>

type_synonym 'a outcome = "(error + 'a) \<times> protector"

definition init :: protector where
  \<comment> \<open>\<open>__init__\<close>\<close>
  "init = \<lparr>mapping = DAList.empty, reverse_mapping = DAList.empty\<rparr>"

definition text_hash :: "pystr \<Rightarrow> error + pystr" where
  \<comment> \<open>line 34: \<open>hashlib.sha256(text.encode()).hexdigest()[:8]\<close>\<close>
  "text_hash text =
     (case encode text of
        Inl e \<Rightarrow> Inl e
      | Inr bs \<Rightarrow> Inr (lit (take 8 (hexdigest (sha256 bs)))))"

definition new_placeholder :: "(pystr \<Rightarrow> pystr) \<Rightarrow> pystr \<Rightarrow> pystr option \<Rightarrow> pystr" where
  \<comment> \<open>lines 36 to 39: the f-string chosen by \<open>if entity_type:\<close>, which \<open>None\<close> and \<open>""\<close>
      both fail; \<open>h\<close> is the value of \<open>text_hash\<close>\<close>
  "new_placeholder upper h entity_type =
     (case entity_type of
        None \<Rightarrow> lit ''[REDACTED_'' @ h @ lit '']''
      | Some ty \<Rightarrow>
          if ty \<noteq> []
          then lit ''[REDACTED_'' @ upper ty @ lit ''_'' @ h @ lit '']''
          else lit ''[REDACTED_'' @ h @ lit '']'')"

definition redact ::
  "(pystr \<Rightarrow> pystr) \<Rightarrow> protector \<Rightarrow> pystr \<Rightarrow> pystr option \<Rightarrow> pystr outcome" where
  \<comment> \<open>lines 15 to 44; an exception of line 34 leaves before anything is assigned; the two
      assignments of lines 41 and 42 in their order\<close>
  "redact upper self text entity_type =
     (if contains (mapping self) text then (getitem (mapping self) text, self)
      else
        case text_hash text of
          Inl e \<Rightarrow> (Inl e, self)
        | Inr h \<Rightarrow>
            let placeholder = new_placeholder upper h entity_type;
                self1 = self\<lparr>mapping := setitem (mapping self) text placeholder\<rparr>;
                self2 = self1\<lparr>reverse_mapping :=
                                 setitem (reverse_mapping self1) placeholder text\<rparr>
            in (Inr placeholder, self2))"

definition unredact :: "protector \<Rightarrow> pystr \<Rightarrow> pystr outcome" where
  \<comment> \<open>lines 46 to 62\<close>
  "unredact self placeholder =
     (if \<not> contains (reverse_mapping self) placeholder
      then (Inl (ValueError (lit ''Placeholder '' @ lit [CHR 0x27] @ placeholder @ lit [CHR 0x27]
                              @ lit '' not found in mapping'')), self)
      else (getitem (reverse_mapping self) placeholder, self))"

text \<open>
  The two loops of \<open>validate_integrity\<close>, over the items still to visit. \<open>Inr False\<close> is
  the early \<open>return False\<close>, \<open>Inr True\<close> the loop running to its end, \<open>Inl\<close> an exception
  of a subscript.
\<close>

fun forward_loop :: "protector \<Rightarrow> (pystr \<times> pystr) list \<Rightarrow> error + bool" where
  "forward_loop self [] = Inr True"
| "forward_loop self ((text, placeholder) # rest) =
     (if \<not> contains (reverse_mapping self) placeholder then Inr False
      else case getitem (reverse_mapping self) placeholder of
             Inl e \<Rightarrow> Inl e
           | Inr v \<Rightarrow> if v \<noteq> text then Inr False else forward_loop self rest)"

fun reverse_loop :: "protector \<Rightarrow> (pystr \<times> pystr) list \<Rightarrow> error + bool" where
  "reverse_loop self [] = Inr True"
| "reverse_loop self ((placeholder, text) # rest) =
     (if \<not> contains (mapping self) text then Inr False
      else case getitem (mapping self) text of
             Inl e \<Rightarrow> Inl e
           | Inr v \<Rightarrow> if v \<noteq> placeholder then Inr False else reverse_loop self rest)"

definition validate_integrity :: "protector \<Rightarrow> bool outcome" where
  \<comment> \<open>lines 64 to 94\<close>
  "validate_integrity self =
     (if len (mapping self) \<noteq> len (reverse_mapping self) then (Inr False, self)
      else case forward_loop self (items (mapping self)) of
             Inl e \<Rightarrow> (Inl e, self)
           | Inr False \<Rightarrow> (Inr False, self)
           | Inr True \<Rightarrow>
               (case reverse_loop self (items (reverse_mapping self)) of
                  Inl e \<Rightarrow> (Inl e, self)
                | Inr False \<Rightarrow> (Inr False, self)
                | Inr True \<Rightarrow> (Inr True, self)))"

section \<open>Sequences of calls\<close>

text \<open>
  The mapper after a caller has made the given \<open>redact\<close> calls one after the other (a
  call that raises leaves the mapper as it was, and the caller goes on); the values that
  \<open>n\<close> successive calls with the same arguments give; and the pairs of text and
  placeholder that the calls of a sequence store (lines 41 and 42), in the order in which
  they are stored: a call stores its text with the placeholder it returns, unless the text
  was a key of the forward index already or the call raised.
\<close>

fun redact_calls ::
  "(pystr \<Rightarrow> pystr) \<Rightarrow> protector \<Rightarrow> (pystr \<times> pystr option) list \<Rightarrow> protector" where
  "redact_calls upper self [] = self"
| "redact_calls upper self ((text, entity_type) # calls) =
     redact_calls upper (snd (redact upper self text entity_type)) calls"

fun redact_repeat ::
  "(pystr \<Rightarrow> pystr) \<Rightarrow> nat \<Rightarrow> protector \<Rightarrow> pystr \<Rightarrow> pystr option \<Rightarrow> (error + pystr) list" where
  "redact_repeat upper 0 self text entity_type = []"
| "redact_repeat upper (Suc n) self text entity_type =
     fst (redact upper self text entity_type)
       # redact_repeat upper n (snd (redact upper self text entity_type)) text entity_type"

fun stored ::
  "(pystr \<Rightarrow> pystr) \<Rightarrow> protector \<Rightarrow> (pystr \<times> pystr option) list \<Rightarrow> (pystr \<times> pystr) list" where
  "stored upper self [] = []"
| "stored upper self ((text, entity_type) # calls) =
     (case fst (redact upper self text entity_type) of
        Inl e \<Rightarrow> []
      | Inr placeholder \<Rightarrow> if contains (mapping self) text then [] else [(text, placeholder)])
     @ stored upper (snd (redact upper self text entity_type)) calls"

section \<open>Consistency of the two indices\<close>

text \<open>
  Two properties that the indices have after \<open>redact\<close> calls on a fresh mapper, whatever
  the texts: the text of every reverse entry is stored under that entry's placeholder,
  and every placeholder of the forward index has a reverse entry.
\<close>

definition backed :: "protector \<Rightarrow> bool" where
  "backed self \<longleftrightarrow>
     (\<forall>p t. DAList.lookup (reverse_mapping self) p = Some t
              \<longrightarrow> DAList.lookup (mapping self) t = Some p)"

definition covered :: "protector \<Rightarrow> bool" where
  "covered self \<longleftrightarrow>
     (\<forall>t p. DAList.lookup (mapping self) t = Some p
              \<longrightarrow> (\<exists>u. DAList.lookup (reverse_mapping self) p = Some u))"

section \<open>The hash function on concrete messages\<close>

text \<open>
  Two test vectors of the standard (one block, and two blocks after padding), and the
  digest prefixes of the messages used below: the empty one, the UTF-8 bytes of U+00E9,
  and the ASCII digits of \<open>69235\<close> and of \<open>95303\<close>, which have one and the same prefix.
\<close>

lemma sha256_abc:
  "hexdigest (sha256 [0x61, 0x62, 0x63])
     = ''ba7816bf8f01cfea414140de5dae2223b00361a396177a9cb410ff61f20015ad''"
  by code_simp

lemma sha256_two_blocks:
  "hexdigest (sha256 (map (\<lambda>c. word_of_nat (of_char c))
                        ''abcdbcdecdefdefgefghfghighijhijkijkljklmklmnlmnomnopnopq''))
     = ''248d6a61d20638b8e5c026930c3e6039a33ce45964ff2167f6ecedd419db06c1''"
  by code_simp

lemma digest_empty: "take 8 (hexdigest (sha256 [])) = ''e3b0c442''"
  by code_simp

lemma digest_e_acute: "take 8 (hexdigest (sha256 [0xC3, 0xA9])) = ''4a99557e''"
  by code_simp

lemma digest_69235: "take 8 (hexdigest (sha256 [0x36, 0x39, 0x32, 0x33, 0x35])) = ''c11eb5e6''"
  by code_simp

lemma digest_95303: "take 8 (hexdigest (sha256 [0x39, 0x35, 0x33, 0x30, 0x33])) = ''c11eb5e6''"
  by code_simp

section \<open>Texts, digests and placeholders\<close>

lemma encode_error: "encode t = Inl e \<Longrightarrow> e = UnicodeEncodeError"
  by (induction t arbitrary: e) (auto split: option.splits sum.splits)

lemma text_hash_Inl: "text_hash t = Inl e \<longleftrightarrow> encode t = Inl e"
  by (simp add: text_hash_def split: sum.splits)

lemma text_hash_Inr:
  "text_hash t = Inr h \<longleftrightarrow> (\<exists>bs. encode t = Inr bs \<and> h = lit (take 8 (hexdigest (sha256 bs))))"
  by (auto simp: text_hash_def split: sum.splits)

lemma text_hash_encodable: "(\<exists>h. text_hash t = Inr h) \<longleftrightarrow> (\<exists>bs. encode t = Inr bs)"
  by (auto simp: text_hash_def split: sum.splits)

lemma encode_lit_abc: "encode (lit ''abc'') = Inr [0x61, 0x62, 0x63]"
  by (simp add: lit_def utf8_def)

lemma encode_empty: "encode (lit '''') = Inr []"
  by (simp add: lit_def)

lemma encode_e_acute: "encode [0xE9] = Inr [0xC3, 0xA9]"
  by (simp add: utf8_def)

lemma encode_69235: "encode (lit ''69235'') = Inr [0x36, 0x39, 0x32, 0x33, 0x35]"
  by (simp add: lit_def utf8_def)

lemma encode_95303: "encode (lit ''95303'') = Inr [0x39, 0x35, 0x33, 0x30, 0x33]"
  by (simp add: lit_def utf8_def)

lemma encode_surrogate: "encode [0xD800] = Inl UnicodeEncodeError"
  by (simp add: utf8_def)

lemma text_hash_abc: "text_hash (lit ''abc'') = Inr (lit ''ba7816bf'')"
  unfolding text_hash_def encode_lit_abc by (simp add: sha256_abc)

lemma text_hash_empty: "text_hash (lit '''') = Inr (lit ''e3b0c442'')"
  unfolding text_hash_def encode_empty by (simp add: digest_empty)

lemma text_hash_e_acute: "text_hash [0xE9] = Inr (lit ''4a99557e'')"
  unfolding text_hash_def encode_e_acute by (simp add: digest_e_acute)

lemma text_hash_69235: "text_hash (lit ''69235'') = Inr (lit ''c11eb5e6'')"
  unfolding text_hash_def encode_69235 by (simp add: digest_69235)

lemma text_hash_95303: "text_hash (lit ''95303'') = Inr (lit ''c11eb5e6'')"
  unfolding text_hash_def encode_95303 by (simp add: digest_95303)

lemma text_hash_surrogate: "text_hash [0xD800] = Inl UnicodeEncodeError"
  unfolding text_hash_def encode_surrogate by simp

lemma hex_digit_in: "n < 16 \<Longrightarrow> hex_digit n \<in> set ''0123456789abcdef''"
  unfolding hex_digit_def by (rule nth_mem) simp

lemma unat_nibble: "unat ((w :: 32 word) AND 0xf) < 16"
proof -
  have "w AND 0xf \<le> 0xf" by (rule word_and_le1)
  then have "unat (w AND 0xf) \<le> unat (0xf :: 32 word)" by (simp add: word_le_nat_alt)
  then show ?thesis by simp
qed

lemma length_hex32: "length (hex32 w) = 8"
  by (simp add: hex32_def)

lemma set_hex32: "set (hex32 w) \<subseteq> set ''0123456789abcdef''"
  unfolding hex32_def using hex_digit_in [OF unat_nibble] by auto

lemma length_hexdigest: "length (hexdigest hs) = 64"
  by (simp add: hexdigest_def length_hex32 split: prod.splits)

lemma set_hexdigest: "set (hexdigest hs) \<subseteq> set ''0123456789abcdef''"
proof
  fix x assume "x \<in> set (hexdigest hs)"
  then obtain w where "x \<in> set (hex32 w)"
    by (auto simp: hexdigest_def split: prod.splits)
  then show "x \<in> set ''0123456789abcdef''"
    using set_hex32 by blast
qed

lemma length_digest_prefix: "length (take 8 (hexdigest hs)) = 8"
  by (simp add: length_hexdigest)

lemma set_digest_prefix: "set (take 8 (hexdigest hs)) \<subseteq> set ''0123456789abcdef''"
proof -
  have "set (take 8 (hexdigest hs)) \<subseteq> set (hexdigest hs)"
    by (rule set_take_subset)
  also have "\<dots> \<subseteq> set ''0123456789abcdef''"
    by (rule set_hexdigest)
  finally show ?thesis .
qed

section \<open>Dicts and single calls\<close>

lemma lookup_setitem:
  "DAList.lookup (setitem d k v) k' = (if k = k' then Some v else DAList.lookup d k')"
  by (simp add: setitem_def lookup_update)

lemma items_lookup: "(k, v) \<in> set (items d) \<longleftrightarrow> DAList.lookup d k = Some v"
  by (simp add: items_def lookup.rep_eq)

lemma len_card: "len d = card (dom (DAList.lookup d))"
proof -
  have "distinct (map fst (DAList.impl_of d))" by simp
  then have "card (set (map fst (DAList.impl_of d))) = length (map fst (DAList.impl_of d))"
    by (rule distinct_card)
  then show ?thesis
    by (simp add: len_def lookup.rep_eq dom_map_of_conv_image_fst)
qed

lemma finite_dom_lookup: "finite (dom (DAList.lookup d))"
  by (simp add: lookup.rep_eq finite_dom_map_of)

lemma lookup_empty_fun: "DAList.lookup DAList.empty = Map.empty"
  by (rule ext) simp

lemma redact_old:
  "DAList.lookup (mapping self) t = Some p \<Longrightarrow> redact upper self t c = (Inr p, self)"
  by (simp add: redact_def contains_def getitem_def)

lemma redact_fail:
  "DAList.lookup (mapping self) t = None \<Longrightarrow> text_hash t = Inl e \<Longrightarrow>
   redact upper self t c = (Inl e, self)"
  by (simp add: redact_def contains_def)

lemma redact_new:
  "DAList.lookup (mapping self) t = None \<Longrightarrow> text_hash t = Inr h \<Longrightarrow>
   redact upper self t c =
     (Inr (new_placeholder upper h c),
      self\<lparr>mapping := setitem (mapping self) t (new_placeholder upper h c),
           reverse_mapping := setitem (reverse_mapping self) (new_placeholder upper h c) t\<rparr>)"
  by (simp add: redact_def contains_def Let_def)

lemma redact_cases:
  obtains (old) p where "DAList.lookup (mapping self) t = Some p"
      "redact upper self t c = (Inr p, self)"
  | (fail) e where "DAList.lookup (mapping self) t = None" "text_hash t = Inl e"
      "redact upper self t c = (Inl e, self)"
  | (new) h where "DAList.lookup (mapping self) t = None" "text_hash t = Inr h"
      "redact upper self t c =
     (Inr (new_placeholder upper h c),
      self\<lparr>mapping := setitem (mapping self) t (new_placeholder upper h c),
           reverse_mapping := setitem (reverse_mapping self) (new_placeholder upper h c) t\<rparr>)"
proof (cases "DAList.lookup (mapping self) t")
  case (Some p)
  then show ?thesis using redact_old old by blast
next
  case None
  show ?thesis
  proof (cases "text_hash t")
    case (Inl e)
    with None show ?thesis using redact_fail fail by blast
  next
    case (Inr h)
    with None show ?thesis using redact_new new by blast
  qed
qed

lemma redact_returns_iff:
  "(\<exists>p. fst (redact upper self t c) = Inr p)
     \<longleftrightarrow> contains (mapping self) t \<or> (\<exists>bs. encode t = Inr bs)"
proof (rule redact_cases [of self t upper c])
  fix p assume "DAList.lookup (mapping self) t = Some p" "redact upper self t c = (Inr p, self)"
  then show ?thesis by (simp add: contains_def)
next
  fix e assume "DAList.lookup (mapping self) t = None" "text_hash t = Inl e"
    "redact upper self t c = (Inl e, self)"
  then show ?thesis by (simp add: contains_def text_hash_Inl)
next
  fix h assume "DAList.lookup (mapping self) t = None" "text_hash t = Inr h"
    and eq: "redact upper self t c =
     (Inr (new_placeholder upper h c),
      self\<lparr>mapping := setitem (mapping self) t (new_placeholder upper h c),
           reverse_mapping := setitem (reverse_mapping self) (new_placeholder upper h c) t\<rparr>)"
  then have "\<exists>bs. encode t = Inr bs" using text_hash_encodable by blast
  then show ?thesis by (simp add: eq)
qed

lemma redact_stores:
  "fst (redact upper self t c) = Inr p \<Longrightarrow>
   DAList.lookup (mapping (snd (redact upper self t c))) t = Some p"
  by (rule redact_cases [of self t upper c]) (auto simp: lookup_setitem)

lemma redact_keeps_forward:
  "DAList.lookup (mapping self) k = Some v \<Longrightarrow>
   DAList.lookup (mapping (snd (redact upper self t c))) k = Some v"
  by (rule redact_cases [of self t upper c]) (auto simp: lookup_setitem)

lemma redact_calls_keep_forward:
  "DAList.lookup (mapping self) k = Some v \<Longrightarrow>
   DAList.lookup (mapping (redact_calls upper self calls)) k = Some v"
  by (induction calls arbitrary: self) (auto simp: redact_keeps_forward)

lemma redact_calls_append:
  "redact_calls upper self (xs @ ys) = redact_calls upper (redact_calls upper self xs) ys"
  by (induction xs arbitrary: self) auto

lemma unredact_Some:
  "DAList.lookup (reverse_mapping self) p = Some t \<Longrightarrow> unredact self p = (Inr t, self)"
  by (simp add: unredact_def contains_def getitem_def)

lemma unredact_returns_iff:
  "fst (unredact self p) = Inr t \<longleftrightarrow> DAList.lookup (reverse_mapping self) p = Some t"
  by (cases "DAList.lookup (reverse_mapping self) p")
     (simp_all add: unredact_def contains_def getitem_def)

section \<open>The integrity check\<close>

lemma forward_loop_eq:
  "forward_loop self xs =
     Inr (\<forall>(t, p) \<in> set xs. DAList.lookup (reverse_mapping self) p = Some t)"
  by (induction xs) (auto simp: contains_def getitem_def split: option.splits)

lemma reverse_loop_eq:
  "reverse_loop self xs =
     Inr (\<forall>(p, t) \<in> set xs. DAList.lookup (mapping self) t = Some p)"
  by (induction xs) (auto simp: contains_def getitem_def split: option.splits)

lemma validate_integrity_loops:
  assumes "forward_loop self (items (mapping self)) = Inr A"
      and "reverse_loop self (items (reverse_mapping self)) = Inr B"
  shows "validate_integrity self
           = (Inr (len (mapping self) = len (reverse_mapping self) \<and> A \<and> B), self)"
  using assms by (cases A; cases B) (simp_all add: validate_integrity_def)

lemma validate_integrity_eq:
  "validate_integrity self =
     (Inr (card (dom (DAList.lookup (mapping self)))
             = card (dom (DAList.lookup (reverse_mapping self)))
           \<and> (\<forall>t p. DAList.lookup (mapping self) t = Some p
                 \<longrightarrow> DAList.lookup (reverse_mapping self) p = Some t)
           \<and> (\<forall>p t. DAList.lookup (reverse_mapping self) p = Some t
                 \<longrightarrow> DAList.lookup (mapping self) t = Some p)), self)"
proof -
  have f: "(\<forall>(t, p) \<in> set (items (mapping self)).
              DAList.lookup (reverse_mapping self) p = Some t)
           \<longleftrightarrow> (\<forall>t p. DAList.lookup (mapping self) t = Some p
                 \<longrightarrow> DAList.lookup (reverse_mapping self) p = Some t)"
    by (auto simp: items_lookup)
  have r: "(\<forall>(p, t) \<in> set (items (reverse_mapping self)).
              DAList.lookup (mapping self) t = Some p)
           \<longleftrightarrow> (\<forall>p t. DAList.lookup (reverse_mapping self) p = Some t
                 \<longrightarrow> DAList.lookup (mapping self) t = Some p)"
    by (auto simp: items_lookup)
  show ?thesis
    using validate_integrity_loops [OF forward_loop_eq reverse_loop_eq, of self]
    by (simp only: f r len_card)
qed

section \<open>States reached from a fresh mapper\<close>

lemma backedD:
  "backed self \<Longrightarrow> DAList.lookup (reverse_mapping self) p = Some t \<Longrightarrow>
   DAList.lookup (mapping self) t = Some p"
  by (simp add: backed_def)

lemma coveredD:
  "covered self \<Longrightarrow> DAList.lookup (mapping self) t = Some p \<Longrightarrow>
   \<exists>u. DAList.lookup (reverse_mapping self) p = Some u"
  by (simp add: covered_def)

lemma init_backed: "backed init"
  by (simp add: backed_def init_def)

lemma init_covered: "covered init"
  by (simp add: covered_def init_def)

lemma redact_backed:
  assumes "backed self"
  shows "backed (snd (redact upper self t c))"
proof (rule redact_cases [of self t upper c])
  fix p assume "redact upper self t c = (Inr p, self)"
  with assms show ?thesis by simp
next
  fix e assume "redact upper self t c = (Inl e, self)"
  with assms show ?thesis by simp
next
  fix h
  let ?p = "new_placeholder upper h c"
  assume new: "DAList.lookup (mapping self) t = None"
    and eq: "redact upper self t c =
       (Inr ?p, self\<lparr>mapping := setitem (mapping self) t ?p,
                      reverse_mapping := setitem (reverse_mapping self) ?p t\<rparr>)"
  show ?thesis
    unfolding eq snd_conv backed_def
  proof (intro allI impI)
    fix q u
    assume "DAList.lookup (reverse_mapping (self\<lparr>mapping := setitem (mapping self) t ?p,
                      reverse_mapping := setitem (reverse_mapping self) ?p t\<rparr>)) q = Some u"
    then have h: "(if ?p = q then Some t else DAList.lookup (reverse_mapping self) q) = Some u"
      by (simp add: lookup_setitem)
    show "DAList.lookup (mapping (self\<lparr>mapping := setitem (mapping self) t ?p,
                      reverse_mapping := setitem (reverse_mapping self) ?p t\<rparr>)) u = Some q"
    proof (cases "?p = q")
      case True
      with h show ?thesis by (simp add: lookup_setitem)
    next
      case False
      with h have r: "DAList.lookup (reverse_mapping self) q = Some u" by simp
      from backedD [OF assms r] new have "t \<noteq> u" by auto
      with backedD [OF assms r] show ?thesis by (simp add: lookup_setitem)
    qed
  qed
qed

lemma redact_covered:
  assumes "covered self"
  shows "covered (snd (redact upper self t c))"
proof (rule redact_cases [of self t upper c])
  fix p assume "redact upper self t c = (Inr p, self)"
  with assms show ?thesis by simp
next
  fix e assume "redact upper self t c = (Inl e, self)"
  with assms show ?thesis by simp
next
  fix h
  let ?p = "new_placeholder upper h c"
  assume eq: "redact upper self t c =
       (Inr ?p, self\<lparr>mapping := setitem (mapping self) t ?p,
                      reverse_mapping := setitem (reverse_mapping self) ?p t\<rparr>)"
  show ?thesis
    unfolding eq snd_conv covered_def
  proof (intro allI impI)
    fix t' p'
    assume "DAList.lookup (mapping (self\<lparr>mapping := setitem (mapping self) t ?p,
                      reverse_mapping := setitem (reverse_mapping self) ?p t\<rparr>)) t' = Some p'"
    then have h: "(if t = t' then Some ?p else DAList.lookup (mapping self) t') = Some p'"
      by (simp add: lookup_setitem)
    show "\<exists>u. DAList.lookup (reverse_mapping (self\<lparr>mapping := setitem (mapping self) t ?p,
                      reverse_mapping := setitem (reverse_mapping self) ?p t\<rparr>)) p' = Some u"
    proof (cases "?p = p'")
      case True
      then show ?thesis by (simp add: lookup_setitem)
    next
      case False
      with h have "DAList.lookup (mapping self) t' = Some p'" by (auto split: if_splits)
      from coveredD [OF assms this] False show ?thesis by (simp add: lookup_setitem)
    qed
  qed
qed

lemma redact_calls_backed: "backed self \<Longrightarrow> backed (redact_calls upper self calls)"
  by (induction calls arbitrary: self) (auto simp: redact_backed)

lemma redact_calls_covered: "covered self \<Longrightarrow> covered (redact_calls upper self calls)"
  by (induction calls arbitrary: self) (auto simp: redact_covered)

text \<open>
  With these two properties the check succeeds, and the sizes agree, exactly when the
  forward index stores no two texts under one placeholder.
\<close>

lemma matched_iff_injective:
  assumes "backed self" and "covered self"
  shows "(\<forall>t p. DAList.lookup (mapping self) t = Some p
             \<longrightarrow> DAList.lookup (reverse_mapping self) p = Some t)
         \<longleftrightarrow> (\<forall>t t' p. DAList.lookup (mapping self) t = Some p
                  \<and> DAList.lookup (mapping self) t' = Some p \<longrightarrow> t = t')"
proof
  assume m: "\<forall>t p. DAList.lookup (mapping self) t = Some p
             \<longrightarrow> DAList.lookup (reverse_mapping self) p = Some t"
  show "\<forall>t t' p. DAList.lookup (mapping self) t = Some p
                  \<and> DAList.lookup (mapping self) t' = Some p \<longrightarrow> t = t'"
  proof (intro allI impI)
    fix t t' p
    assume "DAList.lookup (mapping self) t = Some p \<and> DAList.lookup (mapping self) t' = Some p"
    with m have "DAList.lookup (reverse_mapping self) p = Some t"
      and "DAList.lookup (reverse_mapping self) p = Some t'" by blast+
    then show "t = t'" by simp
  qed
next
  assume i: "\<forall>t t' p. DAList.lookup (mapping self) t = Some p
                  \<and> DAList.lookup (mapping self) t' = Some p \<longrightarrow> t = t'"
  show "\<forall>t p. DAList.lookup (mapping self) t = Some p
             \<longrightarrow> DAList.lookup (reverse_mapping self) p = Some t"
  proof (intro allI impI)
    fix t p
    assume f: "DAList.lookup (mapping self) t = Some p"
    from coveredD [OF assms(2) f] obtain u
      where r: "DAList.lookup (reverse_mapping self) p = Some u" by blast
    from backedD [OF assms(1) r] f i have "u = t" by blast
    with r show "DAList.lookup (reverse_mapping self) p = Some t" by simp
  qed
qed

lemma dom_reverse_image:
  assumes "backed self" and "covered self"
  shows "dom (DAList.lookup (reverse_mapping self))
           = (\<lambda>t. the (DAList.lookup (mapping self) t)) ` dom (DAList.lookup (mapping self))"
proof (rule set_eqI)
  fix p
  show "p \<in> dom (DAList.lookup (reverse_mapping self))
          \<longleftrightarrow> p \<in> (\<lambda>t. the (DAList.lookup (mapping self) t)) ` dom (DAList.lookup (mapping self))"
  proof
    assume "p \<in> dom (DAList.lookup (reverse_mapping self))"
    then obtain u where "DAList.lookup (reverse_mapping self) p = Some u" by auto
    from backedD [OF assms(1) this] have "DAList.lookup (mapping self) u = Some p" .
    then show "p \<in> (\<lambda>t. the (DAList.lookup (mapping self) t)) ` dom (DAList.lookup (mapping self))"
      by force
  next
    assume "p \<in> (\<lambda>t. the (DAList.lookup (mapping self) t)) ` dom (DAList.lookup (mapping self))"
    then obtain t where "DAList.lookup (mapping self) t = Some p" by auto
    from coveredD [OF assms(2) this] show "p \<in> dom (DAList.lookup (reverse_mapping self))"
      by auto
  qed
qed

lemma inj_on_forward_iff:
  "inj_on (\<lambda>t. the (DAList.lookup (mapping self) t)) (dom (DAList.lookup (mapping self)))
     \<longleftrightarrow> (\<forall>t t' p. DAList.lookup (mapping self) t = Some p
                  \<and> DAList.lookup (mapping self) t' = Some p \<longrightarrow> t = t')"
proof
  assume inj: "inj_on (\<lambda>t. the (DAList.lookup (mapping self) t)) (dom (DAList.lookup (mapping self)))"
  show "\<forall>t t' p. DAList.lookup (mapping self) t = Some p
                  \<and> DAList.lookup (mapping self) t' = Some p \<longrightarrow> t = t'"
  proof (intro allI impI)
    fix t t' p
    assume a: "DAList.lookup (mapping self) t = Some p \<and> DAList.lookup (mapping self) t' = Some p"
    then have "t \<in> dom (DAList.lookup (mapping self))" "t' \<in> dom (DAList.lookup (mapping self))"
      "the (DAList.lookup (mapping self) t) = the (DAList.lookup (mapping self) t')"
      by auto
    with inj show "t = t'" by (auto dest: inj_onD)
  qed
next
  assume i: "\<forall>t t' p. DAList.lookup (mapping self) t = Some p
                  \<and> DAList.lookup (mapping self) t' = Some p \<longrightarrow> t = t'"
  show "inj_on (\<lambda>t. the (DAList.lookup (mapping self) t)) (dom (DAList.lookup (mapping self)))"
  proof (rule inj_onI)
    fix x y
    assume "x \<in> dom (DAList.lookup (mapping self))" "y \<in> dom (DAList.lookup (mapping self))"
      "the (DAList.lookup (mapping self) x) = the (DAList.lookup (mapping self) y)"
    then obtain p where "DAList.lookup (mapping self) x = Some p"
      "DAList.lookup (mapping self) y = Some p" by auto
    with i show "x = y" by blast
  qed
qed

lemma sizes_iff_injective:
  assumes "backed self" and "covered self"
  shows "len (mapping self) = len (reverse_mapping self)
         \<longleftrightarrow> (\<forall>t t' p. DAList.lookup (mapping self) t = Some p
                  \<and> DAList.lookup (mapping self) t' = Some p \<longrightarrow> t = t')"
proof -
  let ?g = "\<lambda>t. the (DAList.lookup (mapping self) t)"
  let ?A = "dom (DAList.lookup (mapping self))"
  have fin: "finite ?A" by (rule finite_dom_lookup)
  have "len (reverse_mapping self) = card (?g ` ?A)"
    by (simp only: len_card dom_reverse_image [OF assms])
  then have "len (mapping self) = len (reverse_mapping self) \<longleftrightarrow> card (?g ` ?A) = card ?A"
    by (auto simp: len_card)
  also have "\<dots> \<longleftrightarrow> inj_on ?g ?A"
    using fin by (auto intro: eq_card_imp_inj_on card_image)
  finally show ?thesis by (simp only: inj_on_forward_iff)
qed

lemma reachable_validate:
  assumes "backed self" and "covered self"
  shows "validate_integrity self
           = (Inr (\<forall>t t' p. DAList.lookup (mapping self) t = Some p
                  \<and> DAList.lookup (mapping self) t' = Some p \<longrightarrow> t = t'), self)"
proof -
  let ?I = "\<forall>t t' p. DAList.lookup (mapping self) t = Some p
                  \<and> DAList.lookup (mapping self) t' = Some p \<longrightarrow> t = t'"
  have b: "\<forall>p t. DAList.lookup (reverse_mapping self) p = Some t
                 \<longrightarrow> DAList.lookup (mapping self) t = Some p"
    using assms(1) by (simp add: backed_def)
  have "(card (dom (DAList.lookup (mapping self)))
             = card (dom (DAList.lookup (reverse_mapping self)))
           \<and> (\<forall>t p. DAList.lookup (mapping self) t = Some p
                 \<longrightarrow> DAList.lookup (reverse_mapping self) p = Some t)
           \<and> (\<forall>p t. DAList.lookup (reverse_mapping self) p = Some t
                 \<longrightarrow> DAList.lookup (mapping self) t = Some p)) = ?I"
    using b sizes_iff_injective [OF assms] matched_iff_injective [OF assms]
    unfolding len_card by blast
  then show ?thesis
    by (simp only: validate_integrity_eq)
qed

section \<open>What a sequence of calls stores\<close>

lemma stored_old:
  "DAList.lookup (mapping self) t = Some p \<Longrightarrow>
   stored upper self ((t, c) # calls) = stored upper self calls"
  by (simp add: redact_old contains_def)

lemma stored_fail:
  "DAList.lookup (mapping self) t = None \<Longrightarrow> text_hash t = Inl e \<Longrightarrow>
   stored upper self ((t, c) # calls) = stored upper self calls"
  by (simp add: redact_fail)

lemma stored_new:
  "DAList.lookup (mapping self) t = None \<Longrightarrow> text_hash t = Inr h \<Longrightarrow>
   stored upper self ((t, c) # calls) =
     (t, new_placeholder upper h c)
       # stored upper (snd (redact upper self t c)) calls"
  by (simp add: redact_new contains_def)

declare stored.simps(2) [simp del]

lemma stored_fresh:
  "(t', p') \<in> set (stored upper self calls) \<Longrightarrow> DAList.lookup (mapping self) t' = None"
proof (induction calls arbitrary: self)
  case Nil
  then show ?case by simp
next
  case (Cons call calls)
  obtain t c where call: "call = (t, c)" by (cases call)
  show ?case
  proof (rule redact_cases [of self t upper c])
    fix p assume old: "DAList.lookup (mapping self) t = Some p"
      and eq: "redact upper self t c = (Inr p, self)"
    from Cons.prems have "(t', p') \<in> set (stored upper self calls)"
      by (simp add: call stored_old [OF old])
    then show ?thesis by (rule Cons.IH)
  next
    fix e assume n: "DAList.lookup (mapping self) t = None" and f: "text_hash t = Inl e"
    from Cons.prems have "(t', p') \<in> set (stored upper self calls)"
      by (simp add: call stored_fail [OF n f])
    then show ?thesis by (rule Cons.IH)
  next
    fix h assume n: "DAList.lookup (mapping self) t = None" and f: "text_hash t = Inr h"
      and eq: "redact upper self t c =
     (Inr (new_placeholder upper h c),
      self\<lparr>mapping := setitem (mapping self) t (new_placeholder upper h c),
           reverse_mapping := setitem (reverse_mapping self) (new_placeholder upper h c) t\<rparr>)"
    from Cons.prems
    have "(t', p') = (t, new_placeholder upper h c)
          \<or> (t', p') \<in> set (stored upper (snd (redact upper self t c)) calls)"
      by (simp add: call stored_new [OF n f])
    then show ?thesis
    proof
      assume "(t', p') = (t, new_placeholder upper h c)"
      with n show ?thesis by simp
    next
      assume "(t', p') \<in> set (stored upper (snd (redact upper self t c)) calls)"
      then have "DAList.lookup (mapping (snd (redact upper self t c))) t' = None"
        by (rule Cons.IH)
      then show ?thesis
        by (simp add: eq lookup_setitem split: if_splits)
    qed
  qed
qed

lemma stored_distinct: "distinct (map fst (stored upper self calls))"
proof (induction calls arbitrary: self)
  case Nil
  then show ?case by simp
next
  case (Cons call calls)
  obtain t c where call: "call = (t, c)" by (cases call)
  show ?case
  proof (rule redact_cases [of self t upper c])
    fix p assume old: "DAList.lookup (mapping self) t = Some p"
    show ?thesis
      by (simp add: call stored_old [OF old] Cons.IH)
  next
    fix e assume n: "DAList.lookup (mapping self) t = None" and f: "text_hash t = Inl e"
    show ?thesis
      by (simp add: call stored_fail [OF n f] Cons.IH)
  next
    fix h assume n: "DAList.lookup (mapping self) t = None" and f: "text_hash t = Inr h"
      and eq: "redact upper self t c =
     (Inr (new_placeholder upper h c),
      self\<lparr>mapping := setitem (mapping self) t (new_placeholder upper h c),
           reverse_mapping := setitem (reverse_mapping self) (new_placeholder upper h c) t\<rparr>)"
    have "t \<notin> fst ` set (stored upper (snd (redact upper self t c)) calls)"
    proof
      assume "t \<in> fst ` set (stored upper (snd (redact upper self t c)) calls)"
      then obtain p' where "(t, p') \<in> set (stored upper (snd (redact upper self t c)) calls)"
        by auto
      then have "DAList.lookup (mapping (snd (redact upper self t c))) t = None"
        by (rule stored_fresh)
      then show False by (simp add: eq lookup_setitem)
    qed
    then show ?thesis
      by (simp add: call stored_new [OF n f] Cons.IH)
  qed
qed

lemma forward_after_calls:
  "DAList.lookup (mapping (redact_calls upper self calls)) k =
     (case DAList.lookup (mapping self) k of
        Some v \<Rightarrow> Some v
      | None \<Rightarrow> map_of (stored upper self calls) k)"
proof (induction calls arbitrary: self)
  case Nil
  then show ?case by (simp split: option.splits)
next
  case (Cons call calls)
  obtain t c where call: "call = (t, c)" by (cases call)
  show ?case
  proof (rule redact_cases [of self t upper c])
    fix p assume old: "DAList.lookup (mapping self) t = Some p"
      and eq: "redact upper self t c = (Inr p, self)"
    show ?thesis
      by (simp add: call stored_old [OF old] eq Cons.IH cong: option.case_cong)
  next
    fix e assume n: "DAList.lookup (mapping self) t = None" and f: "text_hash t = Inl e"
      and eq: "redact upper self t c = (Inl e, self)"
    show ?thesis
      by (simp add: call stored_fail [OF n f] eq Cons.IH cong: option.case_cong)
  next
    fix h assume n: "DAList.lookup (mapping self) t = None" and f: "text_hash t = Inr h"
      and eq: "redact upper self t c =
     (Inr (new_placeholder upper h c),
      self\<lparr>mapping := setitem (mapping self) t (new_placeholder upper h c),
           reverse_mapping := setitem (reverse_mapping self) (new_placeholder upper h c) t\<rparr>)"
    have "DAList.lookup (mapping (redact_calls upper self (call # calls))) k
            = (case DAList.lookup (mapping (snd (redact upper self t c))) k of
                 Some v \<Rightarrow> Some v
               | None \<Rightarrow> map_of (stored upper (snd (redact upper self t c)) calls) k)"
      by (simp add: call Cons.IH)
    also have "\<dots> = (case DAList.lookup (mapping self) k of
        Some v \<Rightarrow> Some v
      | None \<Rightarrow> map_of (stored upper self (call # calls)) k)"
      using n by (simp add: call stored_new [OF n f] eq lookup_setitem cong: option.case_cong)
    finally show ?thesis .
  qed
qed

lemma reverse_after_calls:
  "DAList.lookup (reverse_mapping (redact_calls upper self calls)) q =
     (case map_of (rev (map prod.swap (stored upper self calls))) q of
        Some u \<Rightarrow> Some u
      | None \<Rightarrow> DAList.lookup (reverse_mapping self) q)"
proof (induction calls arbitrary: self)
  case Nil
  then show ?case by simp
next
  case (Cons call calls)
  obtain t c where call: "call = (t, c)" by (cases call)
  show ?case
  proof (rule redact_cases [of self t upper c])
    fix p assume old: "DAList.lookup (mapping self) t = Some p"
      and eq: "redact upper self t c = (Inr p, self)"
    show ?thesis
      by (simp add: call stored_old [OF old] eq Cons.IH cong: option.case_cong)
  next
    fix e assume n: "DAList.lookup (mapping self) t = None" and f: "text_hash t = Inl e"
      and eq: "redact upper self t c = (Inl e, self)"
    show ?thesis
      by (simp add: call stored_fail [OF n f] eq Cons.IH cong: option.case_cong)
  next
    fix h assume n: "DAList.lookup (mapping self) t = None" and f: "text_hash t = Inr h"
      and eq: "redact upper self t c =
     (Inr (new_placeholder upper h c),
      self\<lparr>mapping := setitem (mapping self) t (new_placeholder upper h c),
           reverse_mapping := setitem (reverse_mapping self) (new_placeholder upper h c) t\<rparr>)"
    have "DAList.lookup (reverse_mapping (redact_calls upper self (call # calls))) q
            = (case map_of (rev (map prod.swap (stored upper (snd (redact upper self t c)) calls))) q of
                 Some u \<Rightarrow> Some u
               | None \<Rightarrow> DAList.lookup (reverse_mapping (snd (redact upper self t c))) q)"
      by (simp add: call Cons.IH)
    also have "\<dots> = (case map_of (rev (map prod.swap (stored upper self (call # calls)))) q of
        Some u \<Rightarrow> Some u
      | None \<Rightarrow> DAList.lookup (reverse_mapping self) q)"
      by (simp add: call stored_new [OF n f] map_add_def eq lookup_setitem
            cong: option.case_cong split: option.splits)
    finally show ?thesis .
  qed
qed

text \<open>
  In a list of pairs with distinct texts, read from its end for a placeholder: the text
  found is the one of the pair \<open>(t, p)\<close> exactly when no later pair has the placeholder
  \<open>p\<close>.
\<close>

lemma last_writer:
  assumes d: "distinct (map fst F)" and m: "(t, p) \<in> set F"
  shows "map_of (rev (map prod.swap F)) p = Some t
         \<longleftrightarrow> p \<notin> snd ` set (tl (dropWhile (\<lambda>x. fst x \<noteq> t) F))"
proof -
  from m obtain xs ys where F: "F = xs @ (t, p) # ys"
    by (auto simp: in_set_conv_decomp)
  from d have tx: "t \<notin> fst ` set xs" and ty: "t \<notin> fst ` set ys"
    by (auto simp: F)
  from tx have "dropWhile (\<lambda>x. fst x \<noteq> t) F = (t, p) # ys"
    unfolding F by (subst dropWhile_append2) auto
  then have tl: "tl (dropWhile (\<lambda>x. fst x \<noteq> t) F) = ys" by simp
  have look: "map_of (rev (map prod.swap F)) p =
                (case map_of (rev (map prod.swap ys)) p of Some u \<Rightarrow> Some u | None \<Rightarrow> Some t)"
    by (simp add: F map_add_def split: option.splits)
  show ?thesis
  proof (cases "map_of (rev (map prod.swap ys)) p")
    case None
    then have "p \<notin> fst ` set (rev (map prod.swap ys))"
      by (simp add: map_of_eq_None_iff)
    then have "p \<notin> snd ` set ys" by force
    with None look tl show ?thesis by simp
  next
    case (Some u)
    then have "(p, u) \<in> set (rev (map prod.swap ys))" by (rule map_of_SomeD)
    then have in_ys: "(u, p) \<in> set ys" by auto
    then have "u \<in> fst ` set ys" by force
    with ty have "u \<noteq> t" by auto
    moreover from in_ys have "p \<in> snd ` set ys" by force
    ultimately show ?thesis using Some look tl by simp
  qed
qed

lemma stored_encodable:
  "(t', p') \<in> set (stored upper self calls) \<Longrightarrow> \<exists>bs. encode t' = Inr bs"
proof (induction calls arbitrary: self)
  case Nil
  then show ?case by simp
next
  case (Cons call calls)
  obtain t c where call: "call = (t, c)" by (cases call)
  show ?case
  proof (rule redact_cases [of self t upper c])
    fix p assume old: "DAList.lookup (mapping self) t = Some p"
    from Cons.prems have "(t', p') \<in> set (stored upper self calls)"
      by (simp add: call stored_old [OF old])
    then show ?thesis by (rule Cons.IH)
  next
    fix e assume n: "DAList.lookup (mapping self) t = None" and f: "text_hash t = Inl e"
    from Cons.prems have "(t', p') \<in> set (stored upper self calls)"
      by (simp add: call stored_fail [OF n f])
    then show ?thesis by (rule Cons.IH)
  next
    fix h assume n: "DAList.lookup (mapping self) t = None" and f: "text_hash t = Inr h"
    from Cons.prems
    have "(t', p') = (t, new_placeholder upper h c)
          \<or> (t', p') \<in> set (stored upper (snd (redact upper self t c)) calls)"
      by (simp add: call stored_new [OF n f])
    then show ?thesis
    proof
      assume "(t', p') = (t, new_placeholder upper h c)"
      with f show ?thesis using text_hash_encodable by blast
    next
      assume "(t', p') \<in> set (stored upper (snd (redact upper self t c)) calls)"
      then show ?thesis by (rule Cons.IH)
    qed
  qed
qed

lemma forward_fresh:
  "DAList.lookup (mapping (redact_calls upper init calls)) = map_of (stored upper init calls)"
  by (rule ext) (simp add: forward_after_calls init_def)

lemma reverse_fresh:
  "DAList.lookup (reverse_mapping (redact_calls upper init calls))
     = map_of (rev (map prod.swap (stored upper init calls)))"
  by (rule ext) (simp add: reverse_after_calls init_def split: option.splits)

lemma fresh_contains_encodable:
  assumes "contains (mapping (redact_calls upper init calls)) t"
  shows "\<exists>bs. encode t = Inr bs"
proof -
  from assms obtain p where "map_of (stored upper init calls) t = Some p"
    by (auto simp: contains_def forward_fresh)
  then have "(t, p) \<in> set (stored upper init calls)" by (rule map_of_SomeD)
  then show ?thesis by (rule stored_encodable)
qed

lemma redact_repeat_stored:
  "DAList.lookup (mapping self) t = Some p \<Longrightarrow>
   redact_repeat upper n self t c = replicate n (Inr p)"
  by (induction n) (simp_all add: redact_old)

text \<open>What one call does to the two indices.\<close>

lemma redact_no_store:
  "contains (mapping self) t \<or> (\<exists>e. fst (redact upper self t c) = Inl e) \<Longrightarrow>
   snd (redact upper self t c) = self"
  by (rule redact_cases [of self t upper c]) (auto simp: contains_def)

lemma redact_store_forward:
  assumes "\<not> contains (mapping self) t" and "fst (redact upper self t c) = Inr p"
  shows "DAList.lookup (mapping (snd (redact upper self t c))) k
           = (if k = t then Some p else DAList.lookup (mapping self) k)"
proof (rule redact_cases [of self t upper c])
  fix p' assume "DAList.lookup (mapping self) t = Some p'"
  with assms(1) show ?thesis by (simp add: contains_def)
next
  fix e assume "redact upper self t c = (Inl e, self)"
  with assms(2) show ?thesis by simp
next
  fix h assume "redact upper self t c =
     (Inr (new_placeholder upper h c),
      self\<lparr>mapping := setitem (mapping self) t (new_placeholder upper h c),
           reverse_mapping := setitem (reverse_mapping self) (new_placeholder upper h c) t\<rparr>)"
  with assms(2) show ?thesis by (auto simp: lookup_setitem)
qed

lemma redact_store_reverse:
  assumes "\<not> contains (mapping self) t" and "fst (redact upper self t c) = Inr p"
  shows "DAList.lookup (reverse_mapping (snd (redact upper self t c))) q
           = (if q = p then Some t else DAList.lookup (reverse_mapping self) q)"
proof (rule redact_cases [of self t upper c])
  fix p' assume "DAList.lookup (mapping self) t = Some p'"
  with assms(1) show ?thesis by (simp add: contains_def)
next
  fix e assume "redact upper self t c = (Inl e, self)"
  with assms(2) show ?thesis by simp
next
  fix h assume "redact upper self t c =
     (Inr (new_placeholder upper h c),
      self\<lparr>mapping := setitem (mapping self) t (new_placeholder upper h c),
           reverse_mapping := setitem (reverse_mapping self) (new_placeholder upper h c) t\<rparr>)"
  with assms(2) show ?thesis by (auto simp: lookup_setitem)
qed

lemma redact_reverse_entry:
  assumes "DAList.lookup (reverse_mapping self) q = Some u"
  shows "DAList.lookup (reverse_mapping (snd (redact upper self t c))) q
           = Some (if \<not> contains (mapping self) t \<and> fst (redact upper self t c) = Inr q
                   then t else u)"
proof (rule redact_cases [of self t upper c])
  fix p assume "DAList.lookup (mapping self) t = Some p" "redact upper self t c = (Inr p, self)"
  with assms show ?thesis by (simp add: contains_def)
next
  fix e assume "redact upper self t c = (Inl e, self)"
  with assms show ?thesis by simp
next
  fix h assume "DAList.lookup (mapping self) t = None"
    and "redact upper self t c =
     (Inr (new_placeholder upper h c),
      self\<lparr>mapping := setitem (mapping self) t (new_placeholder upper h c),
           reverse_mapping := setitem (reverse_mapping self) (new_placeholder upper h c) t\<rparr>)"
  with assms show ?thesis by (auto simp: contains_def lookup_setitem)
qed

text \<open>The concrete texts, as lists of code points.\<close>

lemmas text_hash_values =
  text_hash_abc [unfolded lit_def, simplified]
  text_hash_empty [unfolded lit_def, simplified]
  text_hash_e_acute [unfolded lit_def, simplified]
  text_hash_69235 [unfolded lit_def, simplified]
  text_hash_95303 [unfolded lit_def, simplified]
  text_hash_surrogate

lemmas run_simps =
  redact_def unredact_def contains_def getitem_def setitem_def new_placeholder_def init_def
  lookup_update Let_def lit_def ascii_upper_def text_hash_values

section \<open>The claims\<close>

text \<open>
  Claim C1, as amended. Let a text \<open>t\<close> be redacted with any category on a mapper that
  started fresh, after any \<open>redact\<close> calls \<open>pre\<close>, and let \<open>p\<close> be the placeholder that
  the call returns. After any further \<open>redact\<close> calls \<open>post\<close>, \<open>unredact(p)\<close> returns \<open>t\<close>
  exactly when none of the pairs stored on the mapper after the pair of \<open>t\<close> has the
  placeholder \<open>p\<close>. The call for \<open>t\<close> returns a placeholder exactly when \<open>t\<close> has a UTF-8
  encoding, which the empty text and every text without a lone surrogate have.
\<close>

theorem unredact_redact:
  "(fst (redact upper (redact_calls upper init pre) t c) = Inr p \<longrightarrow>
      (fst (unredact (redact_calls upper (snd (redact upper (redact_calls upper init pre) t c)) post)
                     p) = Inr t
       \<longleftrightarrow> p \<notin> snd ` set (tl (dropWhile (\<lambda>x. fst x \<noteq> t)
                                    (stored upper init (pre @ (t, c) # post))))))
   \<and> ((\<exists>p. fst (redact upper (redact_calls upper init pre) t c) = Inr p)
        \<longleftrightarrow> (\<exists>bs. encode t = Inr bs))"
proof (intro conjI impI)
  let ?s0 = "redact_calls upper init pre"
  let ?s1 = "snd (redact upper ?s0 t c)"
  let ?s2 = "redact_calls upper ?s1 post"
  let ?F = "stored upper init (pre @ (t, c) # post)"
  assume r: "fst (redact upper ?s0 t c) = Inr p"
  have s2: "?s2 = redact_calls upper init (pre @ (t, c) # post)"
    by (simp add: redact_calls_append)
  from r have "DAList.lookup (mapping ?s1) t = Some p"
    by (rule redact_stores)
  then have "DAList.lookup (mapping ?s2) t = Some p"
    by (rule redact_calls_keep_forward)
  then have "map_of ?F t = Some p"
    by (simp only: s2 forward_fresh)
  then have m: "(t, p) \<in> set ?F" by (rule map_of_SomeD)
  have "fst (unredact ?s2 p) = Inr t \<longleftrightarrow> map_of (rev (map prod.swap ?F)) p = Some t"
    by (simp only: unredact_returns_iff s2 reverse_fresh)
  also have "\<dots> \<longleftrightarrow> p \<notin> snd ` set (tl (dropWhile (\<lambda>x. fst x \<noteq> t) ?F))"
    using stored_distinct m by (rule last_writer)
  finally show "fst (unredact ?s2 p) = Inr t
                  \<longleftrightarrow> p \<notin> snd ` set (tl (dropWhile (\<lambda>x. fst x \<noteq> t) ?F))" .
next
  show "(\<exists>p. fst (redact upper (redact_calls upper init pre) t c) = Inr p)
          \<longleftrightarrow> (\<exists>bs. encode t = Inr bs)"
    using redact_returns_iff [of upper "redact_calls upper init pre" t c]
          fresh_contains_encodable [of upper pre t]
    by blast
qed

text \<open>
  The theorem at work. The text \<open>95303\<close> is redacted after \<open>69235\<close>, which has the same
  digest prefix: the two pairs stored have the same placeholder, the pair of \<open>95303\<close> is
  the later one, and \<open>unredact\<close> gives \<open>95303\<close>. The empty text is redacted with a category
  between a text outside ASCII (U+00E9) and \<open>abc\<close>.
\<close>

theorem unredact_redact_witness:
  "fst (redact ascii_upper (redact_calls ascii_upper init [(lit ''69235'', None)])
               (lit ''95303'') None) = Inr (lit ''[REDACTED_c11eb5e6]'')
   \<and> stored ascii_upper init ([(lit ''69235'', None)] @ (lit ''95303'', None) # [])
       = [(lit ''69235'', lit ''[REDACTED_c11eb5e6]''), (lit ''95303'', lit ''[REDACTED_c11eb5e6]'')]
   \<and> fst (unredact (redact_calls ascii_upper
                      (snd (redact ascii_upper (redact_calls ascii_upper init [(lit ''69235'', None)])
                                   (lit ''95303'') None)) [])
                   (lit ''[REDACTED_c11eb5e6]'')) = Inr (lit ''95303'')
   \<and> fst (redact ascii_upper (redact_calls ascii_upper init [([0xE9], None)])
               (lit '''') (Some (lit ''note''))) = Inr (lit ''[REDACTED_NOTE_e3b0c442]'')
   \<and> fst (unredact (redact_calls ascii_upper
                      (snd (redact ascii_upper (redact_calls ascii_upper init [([0xE9], None)])
                                   (lit '''') (Some (lit ''note''))))
                      [(lit ''abc'', None)])
                   (lit ''[REDACTED_NOTE_e3b0c442]'')) = Inr (lit '''')"
proof -
  have r1: "fst (redact ascii_upper (redact_calls ascii_upper init [(lit ''69235'', None)])
               (lit ''95303'') None) = Inr (lit ''[REDACTED_c11eb5e6]'')"
    by (simp add: run_simps)
  have s1: "stored ascii_upper init ([(lit ''69235'', None)] @ (lit ''95303'', None) # [])
       = [(lit ''69235'', lit ''[REDACTED_c11eb5e6]''), (lit ''95303'', lit ''[REDACTED_c11eb5e6]'')]"
    by (simp add: run_simps stored.simps(2))
  have n1: "lit ''[REDACTED_c11eb5e6]''
              \<notin> snd ` set (tl (dropWhile (\<lambda>x. fst x \<noteq> lit ''95303'')
                   (stored ascii_upper init ([(lit ''69235'', None)] @ (lit ''95303'', None) # []))))"
    unfolding s1 by (simp add: lit_def)
  have r2: "fst (redact ascii_upper (redact_calls ascii_upper init [([0xE9], None)])
               (lit '''') (Some (lit ''note''))) = Inr (lit ''[REDACTED_NOTE_e3b0c442]'')"
    by (simp add: run_simps)
  have s2: "stored ascii_upper init ([([0xE9], None)] @ (lit '''', Some (lit ''note''))
                                       # [(lit ''abc'', None)])
       = [([0xE9], lit ''[REDACTED_4a99557e]''), (lit '''', lit ''[REDACTED_NOTE_e3b0c442]''),
          (lit ''abc'', lit ''[REDACTED_ba7816bf]'')]"
    by (simp add: run_simps stored.simps(2))
  have n2: "lit ''[REDACTED_NOTE_e3b0c442]''
              \<notin> snd ` set (tl (dropWhile (\<lambda>x. fst x \<noteq> lit '''')
                   (stored ascii_upper init ([([0xE9], None)] @ (lit '''', Some (lit ''note''))
                                       # [(lit ''abc'', None)]))))"
    unfolding s2 by (simp add: lit_def)
  from unredact_redact [of ascii_upper "[(lit ''69235'', None)]" "lit ''95303''" None
                           "lit ''[REDACTED_c11eb5e6]''" "[]"] r1 n1
  have u1: "fst (unredact (redact_calls ascii_upper
                      (snd (redact ascii_upper (redact_calls ascii_upper init [(lit ''69235'', None)])
                                   (lit ''95303'') None)) [])
                   (lit ''[REDACTED_c11eb5e6]'')) = Inr (lit ''95303'')"
    by blast
  from unredact_redact [of ascii_upper "[([0xE9], None)]" "lit ''''" "Some (lit ''note'')"
                           "lit ''[REDACTED_NOTE_e3b0c442]''" "[(lit ''abc'', None)]"] r2 n2
  have u2: "fst (unredact (redact_calls ascii_upper
                      (snd (redact ascii_upper (redact_calls ascii_upper init [([0xE9], None)])
                                   (lit '''') (Some (lit ''note''))))
                      [(lit ''abc'', None)])
                   (lit ''[REDACTED_NOTE_e3b0c442]'')) = Inr (lit '''')"
    by blast
  from r1 s1 u1 r2 u2 show ?thesis
    by (intro conjI)
qed

text \<open>
  The claim as it was made fails. \<open>69235\<close> and \<open>95303\<close> have the same digest prefix
  \<open>c11eb5e6\<close>, so they get the same placeholder, and the later call overwrites the reverse
  entry of the earlier one: \<open>unredact\<close> on the placeholder returned for \<open>69235\<close> gives
  \<open>95303\<close>. And for a text that is a lone surrogate \<open>redact\<close> returns no placeholder:
  it raises \<open>UnicodeEncodeError\<close>.
\<close>

theorem unredact_redact_counterexample:
  "fst (redact ascii_upper init (lit ''69235'') None) = Inr (lit ''[REDACTED_c11eb5e6]'')
   \<and> fst (unredact (redact_calls ascii_upper (snd (redact ascii_upper init (lit ''69235'') None))
                                   [(lit ''95303'', None)])
                   (lit ''[REDACTED_c11eb5e6]'')) = Inr (lit ''95303'')
   \<and> lit ''95303'' \<noteq> lit ''69235''
   \<and> fst (redact ascii_upper init [0xD800] None) = Inl UnicodeEncodeError"
  by (simp add: run_simps)

text \<open>
  Claim C2, as amended. After any finite sequence of \<open>redact\<close> calls on a fresh mapper,
  with any texts and categories, \<open>validate_integrity()\<close> returns \<open>True\<close> exactly when no
  two distinct texts of the forward index are stored under the same placeholder, and
  exactly then the forward and the reverse index have the same size. The call raises
  nothing and leaves the mapper as it is.
\<close>

theorem integrity_reachable:
  "validate_integrity (redact_calls upper init calls)
     = (Inr (\<forall>t t' p. DAList.lookup (mapping (redact_calls upper init calls)) t = Some p
                       \<and> DAList.lookup (mapping (redact_calls upper init calls)) t' = Some p
                     \<longrightarrow> t = t'),
        redact_calls upper init calls)
   \<and> (len (mapping (redact_calls upper init calls))
         = len (reverse_mapping (redact_calls upper init calls))
       \<longleftrightarrow> (\<forall>t t' p. DAList.lookup (mapping (redact_calls upper init calls)) t = Some p
                       \<and> DAList.lookup (mapping (redact_calls upper init calls)) t' = Some p
                     \<longrightarrow> t = t'))"
proof -
  have b: "backed (redact_calls upper init calls)"
    using init_backed by (rule redact_calls_backed)
  have c: "covered (redact_calls upper init calls)"
    using init_covered by (rule redact_calls_covered)
  from reachable_validate [OF b c] sizes_iff_injective [OF b c] show ?thesis
    by (intro conjI)
qed

text \<open>
  The theorem at work on two texts with the same digest prefix that are redacted with
  different categories: they are stored under different placeholders, the check
  returns \<open>True\<close>, and both indices have two entries.
\<close>

theorem integrity_reachable_witness:
  "DAList.lookup (mapping (redact_calls ascii_upper init
       [(lit ''69235'', Some (lit ''a'')), (lit ''95303'', Some (lit ''b''))])) (lit ''69235'')
     = Some (lit ''[REDACTED_A_c11eb5e6]'')
   \<and> DAList.lookup (mapping (redact_calls ascii_upper init
       [(lit ''69235'', Some (lit ''a'')), (lit ''95303'', Some (lit ''b''))])) (lit ''95303'')
     = Some (lit ''[REDACTED_B_c11eb5e6]'')
   \<and> fst (validate_integrity (redact_calls ascii_upper init
       [(lit ''69235'', Some (lit ''a'')), (lit ''95303'', Some (lit ''b''))])) = Inr True
   \<and> len (mapping (redact_calls ascii_upper init
       [(lit ''69235'', Some (lit ''a'')), (lit ''95303'', Some (lit ''b''))])) = 2
   \<and> len (reverse_mapping (redact_calls ascii_upper init
       [(lit ''69235'', Some (lit ''a'')), (lit ''95303'', Some (lit ''b''))])) = 2"
proof -
  let ?s = "redact_calls ascii_upper init
       [(lit ''69235'', Some (lit ''a'')), (lit ''95303'', Some (lit ''b''))]"
  have a: "DAList.lookup (mapping ?s) (lit ''69235'') = Some (lit ''[REDACTED_A_c11eb5e6]'')"
    by (simp add: run_simps)
  have b: "DAList.lookup (mapping ?s) (lit ''95303'') = Some (lit ''[REDACTED_B_c11eb5e6]'')"
    by (simp add: run_simps)
  have l: "len (mapping ?s) = 2"
    by (simp add: run_simps len_def update.rep_eq empty.rep_eq)
  have i: "\<forall>t t' p. DAList.lookup (mapping ?s) t = Some p
                       \<and> DAList.lookup (mapping ?s) t' = Some p \<longrightarrow> t = t'"
    by (simp add: run_simps)
  from integrity_reachable [of ascii_upper
         "[(lit ''69235'', Some (lit ''a'')), (lit ''95303'', Some (lit ''b''))]"]
  have v: "validate_integrity ?s = (Inr True, ?s)" and l': "len (mapping ?s) = len (reverse_mapping ?s)"
    unfolding Eq_TrueI [OF i] by (simp_all only: simp_thms)
  from a b v l l' show ?thesis
    by simp
qed

text \<open>
  The claim as it was made fails: after \<open>redact("69235")\<close> and \<open>redact("95303")\<close> on a
  fresh mapper the forward index has two entries, the reverse index one, and
  \<open>validate_integrity()\<close> returns \<open>False\<close>.
\<close>

theorem integrity_counterexample:
  "fst (validate_integrity
          (redact_calls ascii_upper init [(lit ''69235'', None), (lit ''95303'', None)]))
     = Inr False
   \<and> len (mapping (redact_calls ascii_upper init [(lit ''69235'', None), (lit ''95303'', None)]))
       = 2
   \<and> len (reverse_mapping
            (redact_calls ascii_upper init [(lit ''69235'', None), (lit ''95303'', None)])) = 1"
  by (simp add: run_simps validate_integrity_def len_def update.rep_eq empty.rep_eq)

text \<open>
  Claim C3, as amended. For a text \<open>t\<close> that is not in the forward index and has a UTF-8
  encoding, \<open>redact(t, c)\<close> returns \<open>"[REDACTED_"\<close>, then \<open>c\<close> in upper case and \<open>"_"\<close> when
  a non-empty category \<open>c\<close> is given (nothing when \<open>c\<close> is \<open>None\<close> or empty), then the first
  8 characters of the hexadecimal SHA-256 digest of the encoded \<open>t\<close>, then \<open>"]"\<close>. For a
  text that is not in the forward index \<open>redact\<close> returns a placeholder only if the text
  has a UTF-8 encoding.
\<close>

theorem redact_new_format:
  assumes "\<not> contains (mapping self) t"
  shows "(\<forall>bs. encode t = Inr bs \<longrightarrow>
            fst (redact upper self t c)
              = Inr (lit ''[REDACTED_''
                     @ (case c of None \<Rightarrow> []
                        | Some ty \<Rightarrow> if ty = [] then [] else upper ty @ lit ''_'')
                     @ lit (take 8 (hexdigest (sha256 bs))) @ lit '']''))
         \<and> ((\<exists>p. fst (redact upper self t c) = Inr p) \<longleftrightarrow> (\<exists>bs. encode t = Inr bs))"
proof (intro conjI allI impI)
  fix bs assume "encode t = Inr bs"
  with assms show "fst (redact upper self t c)
              = Inr (lit ''[REDACTED_''
                     @ (case c of None \<Rightarrow> []
                        | Some ty \<Rightarrow> if ty = [] then [] else upper ty @ lit ''_'')
                     @ lit (take 8 (hexdigest (sha256 bs))) @ lit '']'')"
    by (simp add: redact_def new_placeholder_def text_hash_def Let_def split: option.splits)
next
  from assms redact_returns_iff [of upper self t c]
  show "(\<exists>p. fst (redact upper self t c) = Inr p) \<longleftrightarrow> (\<exists>bs. encode t = Inr bs)"
    by simp
qed

text \<open>On a fresh mapper, \<open>redact("abc", "email")\<close> returns \<open>[REDACTED_EMAIL_ba7816bf]\<close>.\<close>

theorem redact_new_format_witness:
  "\<not> contains (mapping init) (lit ''abc'')
   \<and> encode (lit ''abc'') = Inr [0x61, 0x62, 0x63]
   \<and> ascii_upper (lit ''email'') = lit ''EMAIL''
   \<and> take 8 (hexdigest (sha256 [0x61, 0x62, 0x63])) = ''ba7816bf''
   \<and> fst (redact ascii_upper init (lit ''abc'') (Some (lit ''email'')))
       = Inr (lit ''[REDACTED_EMAIL_ba7816bf]'')"
proof -
  have a: "\<not> contains (mapping init) (lit ''abc'')"
    by (simp add: contains_def init_def)
  have u: "ascii_upper (lit ''email'') = lit ''EMAIL''"
    by (simp add: ascii_upper_def lit_def)
  have h: "take 8 (hexdigest (sha256 [0x61, 0x62, 0x63])) = ''ba7816bf''"
    by (simp add: sha256_abc)
  from redact_new_format [OF a, of ascii_upper "Some (lit ''email'')"] encode_lit_abc
  have "fst (redact ascii_upper init (lit ''abc'') (Some (lit ''email'')))
          = Inr (lit ''[REDACTED_''
                 @ (case Some (lit ''email'') of None \<Rightarrow> []
                    | Some ty \<Rightarrow> if ty = [] then [] else ascii_upper ty @ lit ''_'')
                 @ lit (take 8 (hexdigest (sha256 [0x61, 0x62, 0x63]))) @ lit '']'')"
    by blast
  then have "fst (redact ascii_upper init (lit ''abc'') (Some (lit ''email'')))
       = Inr (lit ''[REDACTED_EMAIL_ba7816bf]'')"
    by (simp add: h lit_def ascii_upper_def)
  with a encode_lit_abc u h show ?thesis
    by (intro conjI)
qed

text \<open>
  The claim as it was made fails twice. With the empty string given as the category its
  format, which puts the category in upper case and \<open>"_"\<close> after \<open>"[REDACTED_"\<close> whenever a
  category is given, would be \<open>[REDACTED__ba7816bf]\<close> for the new text \<open>abc\<close>; \<open>redact\<close>
  returns \<open>[REDACTED_ba7816bf]\<close>. And for a new text that is a lone surrogate \<open>redact\<close>
  returns no string: it raises \<open>UnicodeEncodeError\<close>.
\<close>

theorem redact_new_format_counterexample:
  "\<not> contains (mapping init) (lit ''abc'')
   \<and> fst (redact ascii_upper init (lit ''abc'') (Some (lit ''''))) = Inr (lit ''[REDACTED_ba7816bf]'')
   \<and> lit ''[REDACTED_'' @ (ascii_upper (lit '''') @ lit ''_'')
        @ lit (take 8 (hexdigest (sha256 [0x61, 0x62, 0x63]))) @ lit '']''
       = lit ''[REDACTED__ba7816bf]''
   \<and> lit ''[REDACTED_ba7816bf]'' \<noteq> lit ''[REDACTED__ba7816bf]''
   \<and> \<not> contains (mapping init) [0xD800]
   \<and> fst (redact ascii_upper init [0xD800] None) = Inl UnicodeEncodeError"
  by (simp add: run_simps sha256_abc)

text \<open>
  Claim C4, as amended. For a text that has a UTF-8 encoding or is a key of the forward
  index already, and any category, calling \<open>redact(t, c)\<close> \<open>n\<close> times in a row on the same
  mapper, in whatever state it starts, returns the same placeholder every time: the list
  of the \<open>n\<close> results is \<open>n\<close> copies of one placeholder. For no other text do the calls
  return a placeholder every time.
\<close>

theorem redact_idempotent:
  "(contains (mapping self) t \<or> (\<exists>bs. encode t = Inr bs) \<longrightarrow>
      (\<exists>p. redact_repeat upper n self t c = replicate n (Inr p)))
   \<and> ((\<exists>p. redact_repeat upper (Suc n) self t c = replicate (Suc n) (Inr p)) \<longrightarrow>
        contains (mapping self) t \<or> (\<exists>bs. encode t = Inr bs))"
proof (intro conjI impI)
  assume "contains (mapping self) t \<or> (\<exists>bs. encode t = Inr bs)"
  then obtain p where p: "fst (redact upper self t c) = Inr p"
    using redact_returns_iff [of upper self t c] by blast
  then have st: "DAList.lookup (mapping (snd (redact upper self t c))) t = Some p"
    by (rule redact_stores)
  show "\<exists>p. redact_repeat upper n self t c = replicate n (Inr p)"
  proof (cases n)
    case 0
    then show ?thesis by simp
  next
    case (Suc m)
    from st have "redact_repeat upper m (snd (redact upper self t c)) t c = replicate m (Inr p)"
      by (rule redact_repeat_stored)
    with p Suc have "redact_repeat upper n self t c = replicate n (Inr p)"
      by simp
    then show ?thesis ..
  qed
next
  assume "\<exists>p. redact_repeat upper (Suc n) self t c = replicate (Suc n) (Inr p)"
  then have "\<exists>p. fst (redact upper self t c) = Inr p"
    by auto
  then show "contains (mapping self) t \<or> (\<exists>bs. encode t = Inr bs)"
    using redact_returns_iff [of upper self t c] by blast
qed

text \<open>Three calls in a row on a fresh mapper.\<close>

theorem redact_idempotent_witness:
  "encode (lit ''abc'') = Inr [0x61, 0x62, 0x63]
   \<and> redact_repeat ascii_upper 3 init (lit ''abc'') (Some (lit ''email''))
     = [Inr (lit ''[REDACTED_EMAIL_ba7816bf]''), Inr (lit ''[REDACTED_EMAIL_ba7816bf]''),
        Inr (lit ''[REDACTED_EMAIL_ba7816bf]'')]"
proof -
  have "fst (redact ascii_upper init (lit ''abc'') (Some (lit ''email'')))
          = Inr (lit ''[REDACTED_EMAIL_ba7816bf]'')"
    by (simp add: run_simps)
  moreover from redact_idempotent [of init "lit ''abc''" ascii_upper 3 "Some (lit ''email'')"]
    encode_lit_abc
  obtain p where "redact_repeat ascii_upper 3 init (lit ''abc'') (Some (lit ''email''))
                    = replicate 3 (Inr p)"
    by blast
  ultimately have "redact_repeat ascii_upper 3 init (lit ''abc'') (Some (lit ''email''))
     = [Inr (lit ''[REDACTED_EMAIL_ba7816bf]''), Inr (lit ''[REDACTED_EMAIL_ba7816bf]''),
        Inr (lit ''[REDACTED_EMAIL_ba7816bf]'')]"
    by (auto simp: numeral_3_eq_3)
  with encode_lit_abc show ?thesis
    by (intro conjI)
qed

text \<open>
  The claim as it was made fails for a new text that is a lone surrogate: every call
  raises \<open>UnicodeEncodeError\<close>, and no call yields a placeholder.
\<close>

theorem redact_idempotent_counterexample:
  "\<not> contains (mapping init) [0xD800]
   \<and> encode [0xD800] = Inl UnicodeEncodeError
   \<and> redact_repeat ascii_upper 2 init [0xD800] None
       = [Inl UnicodeEncodeError, Inl UnicodeEncodeError]"
  by (simp add: run_simps numeral_2_eq_2 utf8_def)

text \<open>
  Claim C5, as amended. When \<open>redact(t, c1)\<close> returns a placeholder \<open>p\<close>, \<open>p\<close> is what the
  forward index holds for \<open>t\<close> after the call, and a later call \<open>redact(t, c2)\<close>, after any
  other \<open>redact\<close> calls and with any category argument, returns \<open>p\<close> again and leaves \<open>p\<close>
  in the forward index for \<open>t\<close>. The first call returns a placeholder exactly when \<open>t\<close> is
  a key of the forward index already or has a UTF-8 encoding.
\<close>

theorem redact_first_category_wins:
  "(fst (redact upper self t c1) = Inr p \<longrightarrow>
      DAList.lookup (mapping (snd (redact upper self t c1))) t = Some p
      \<and> fst (redact upper (redact_calls upper (snd (redact upper self t c1)) calls) t c2) = Inr p
      \<and> DAList.lookup
          (mapping (snd (redact upper (redact_calls upper (snd (redact upper self t c1)) calls)
                                t c2))) t
         = Some p)
   \<and> ((\<exists>p. fst (redact upper self t c1) = Inr p)
        \<longleftrightarrow> contains (mapping self) t \<or> (\<exists>bs. encode t = Inr bs))"
proof (intro conjI impI)
  assume p: "fst (redact upper self t c1) = Inr p"
  then show st: "DAList.lookup (mapping (snd (redact upper self t c1))) t = Some p"
    by (rule redact_stores)
  then have later:
    "DAList.lookup (mapping (redact_calls upper (snd (redact upper self t c1)) calls)) t = Some p"
    by (rule redact_calls_keep_forward)
  then have eq: "redact upper (redact_calls upper (snd (redact upper self t c1)) calls) t c2
               = (Inr p, redact_calls upper (snd (redact upper self t c1)) calls)"
    by (rule redact_old)
  then show "fst (redact upper (redact_calls upper (snd (redact upper self t c1)) calls) t c2)
               = Inr p"
    by simp
  from eq later show "DAList.lookup
          (mapping (snd (redact upper (redact_calls upper (snd (redact upper self t c1)) calls)
                                t c2))) t
         = Some p"
    by simp
next
  show "(\<exists>p. fst (redact upper self t c1) = Inr p)
        \<longleftrightarrow> contains (mapping self) t \<or> (\<exists>bs. encode t = Inr bs)"
    by (rule redact_returns_iff)
qed

text \<open>The first call without a category, the later one with the category \<open>email\<close>.\<close>

theorem redact_first_category_wins_witness:
  "fst (redact ascii_upper init (lit ''abc'') None) = Inr (lit ''[REDACTED_ba7816bf]'')
   \<and> fst (redact ascii_upper
            (redact_calls ascii_upper (snd (redact ascii_upper init (lit ''abc'') None))
                          [(lit ''69235'', None)])
            (lit ''abc'') (Some (lit ''email''))) = Inr (lit ''[REDACTED_ba7816bf]'')"
proof -
  have r: "fst (redact ascii_upper init (lit ''abc'') None) = Inr (lit ''[REDACTED_ba7816bf]'')"
    by (simp add: run_simps)
  with redact_first_category_wins [of ascii_upper init "lit ''abc''" None
         "lit ''[REDACTED_ba7816bf]''" "[(lit ''69235'', None)]" "Some (lit ''email'')"]
  have "fst (redact ascii_upper
            (redact_calls ascii_upper (snd (redact ascii_upper init (lit ''abc'') None))
                          [(lit ''69235'', None)])
            (lit ''abc'') (Some (lit ''email''))) = Inr (lit ''[REDACTED_ba7816bf]'')"
    by blast
  with r show ?thesis
    by (intro conjI)
qed

text \<open>
  The claim as it was made fails for a new text that is a lone surrogate: the first call
  raises \<open>UnicodeEncodeError\<close> and stores nothing, and the later call raises again.
\<close>

theorem redact_first_category_wins_counterexample:
  "fst (redact ascii_upper init [0xD800] (Some (lit ''name''))) = Inl UnicodeEncodeError
   \<and> DAList.lookup (mapping (snd (redact ascii_upper init [0xD800] (Some (lit ''name'')))))
        [0xD800] = None
   \<and> fst (redact ascii_upper (snd (redact ascii_upper init [0xD800] (Some (lit ''name''))))
            [0xD800] None) = Inl UnicodeEncodeError"
  by (simp add: run_simps)

text \<open>
  Claim C6. \<open>unredact(p)\<close> returns the text that the reverse index holds for \<open>p\<close>; it
  raises exactly when \<open>p\<close> is not a key of the reverse index, and then it raises
  \<open>ValueError\<close> with a message that quotes \<open>p\<close>; in both cases the mapper is left as it
  was.
\<close>

theorem unredact_lookup:
  "(\<forall>t. DAList.lookup (reverse_mapping self) p = Some t \<longrightarrow> fst (unredact self p) = Inr t)
   \<and> ((\<exists>e. fst (unredact self p) = Inl e) \<longleftrightarrow> DAList.lookup (reverse_mapping self) p = None)
   \<and> (DAList.lookup (reverse_mapping self) p = None \<longrightarrow>
        fst (unredact self p)
          = Inl (ValueError (lit ''Placeholder '' @ lit [CHR 0x27] @ p @ lit [CHR 0x27]
                              @ lit '' not found in mapping'')))
   \<and> snd (unredact self p) = self"
  by (cases "DAList.lookup (reverse_mapping self) p")
     (simp_all add: unredact_def contains_def getitem_def)

text \<open>A known and an unknown placeholder, after \<open>redact("abc")\<close> on a fresh mapper.\<close>

theorem unredact_lookup_witness:
  "DAList.lookup (reverse_mapping (snd (redact ascii_upper init (lit ''abc'') None)))
      (lit ''[REDACTED_ba7816bf]'') = Some (lit ''abc'')
   \<and> fst (unredact (snd (redact ascii_upper init (lit ''abc'') None)) (lit ''[REDACTED_ba7816bf]''))
       = Inr (lit ''abc'')
   \<and> DAList.lookup (reverse_mapping (snd (redact ascii_upper init (lit ''abc'') None)))
        (lit ''[REDACTED_UNKNOWN]'') = None
   \<and> fst (unredact (snd (redact ascii_upper init (lit ''abc'') None)) (lit ''[REDACTED_UNKNOWN]''))
       = Inl (ValueError (lit ''Placeholder '' @ lit [CHR 0x27] @ lit ''[REDACTED_UNKNOWN]''
                           @ lit [CHR 0x27] @ lit '' not found in mapping''))"
proof -
  have a: "DAList.lookup (reverse_mapping (snd (redact ascii_upper init (lit ''abc'') None)))
      (lit ''[REDACTED_ba7816bf]'') = Some (lit ''abc'')"
    by (simp add: run_simps)
  have b: "DAList.lookup (reverse_mapping (snd (redact ascii_upper init (lit ''abc'') None)))
        (lit ''[REDACTED_UNKNOWN]'') = None"
    by (simp add: run_simps)
  from unredact_lookup [of "snd (redact ascii_upper init (lit ''abc'') None)"
                           "lit ''[REDACTED_ba7816bf]''"] a
  have c: "fst (unredact (snd (redact ascii_upper init (lit ''abc'') None))
                         (lit ''[REDACTED_ba7816bf]'')) = Inr (lit ''abc'')"
    by blast
  from unredact_lookup [of "snd (redact ascii_upper init (lit ''abc'') None)"
                           "lit ''[REDACTED_UNKNOWN]''"] b
  have d: "fst (unredact (snd (redact ascii_upper init (lit ''abc'') None))
                         (lit ''[REDACTED_UNKNOWN]''))
       = Inl (ValueError (lit ''Placeholder '' @ lit [CHR 0x27] @ lit ''[REDACTED_UNKNOWN]''
                           @ lit [CHR 0x27] @ lit '' not found in mapping''))"
    by blast
  from a c b d show ?thesis
    by (intro conjI)
qed

text \<open>
  Claim C7. In every state of the mapper, also one whose two indices do not match,
  \<open>validate_integrity()\<close> raises nothing, leaves the mapper as it is, and returns \<open>True\<close>
  exactly when the indices have the same number of keys, every pair of the forward index
  has its placeholder mapped back to its text by the reverse index, and every pair of the
  reverse index has its text mapped to its placeholder by the forward index.
\<close>

theorem validate_integrity_exact_inverses:
  "validate_integrity self =
     (Inr (card (dom (DAList.lookup (mapping self)))
             = card (dom (DAList.lookup (reverse_mapping self)))
           \<and> (\<forall>t p. DAList.lookup (mapping self) t = Some p
                 \<longrightarrow> DAList.lookup (reverse_mapping self) p = Some t)
           \<and> (\<forall>p t. DAList.lookup (reverse_mapping self) p = Some t
                 \<longrightarrow> DAList.lookup (mapping self) t = Some p)), self)"
  by (rule validate_integrity_eq)

text \<open>
  Two states built directly: one with matching indices, and one whose reverse index maps
  the placeholder to another text.
\<close>

theorem validate_integrity_exact_inverses_witness:
  "DAList.lookup (DAList.update (lit ''a'') (lit ''p'') DAList.empty) (lit ''a'') = Some (lit ''p'')
   \<and> DAList.lookup (DAList.update (lit ''p'') (lit ''a'') DAList.empty) (lit ''p'') = Some (lit ''a'')
   \<and> validate_integrity \<lparr>mapping = DAList.update (lit ''a'') (lit ''p'') DAList.empty,
                          reverse_mapping = DAList.update (lit ''p'') (lit ''a'') DAList.empty\<rparr>
       = (Inr True, \<lparr>mapping = DAList.update (lit ''a'') (lit ''p'') DAList.empty,
                     reverse_mapping = DAList.update (lit ''p'') (lit ''a'') DAList.empty\<rparr>)
   \<and> validate_integrity \<lparr>mapping = DAList.update (lit ''a'') (lit ''p'') DAList.empty,
                          reverse_mapping = DAList.update (lit ''p'') (lit ''b'') DAList.empty\<rparr>
       = (Inr False, \<lparr>mapping = DAList.update (lit ''a'') (lit ''p'') DAList.empty,
                      reverse_mapping = DAList.update (lit ''p'') (lit ''b'') DAList.empty\<rparr>)"
proof -
  let ?f = "DAList.update (lit ''a'') (lit ''p'') DAList.empty"
  let ?r = "DAList.update (lit ''p'') (lit ''a'') DAList.empty"
  let ?r' = "DAList.update (lit ''p'') (lit ''b'') DAList.empty"
  let ?G = "\<lparr>mapping = ?f, reverse_mapping = ?r\<rparr>"
  let ?B = "\<lparr>mapping = ?f, reverse_mapping = ?r'\<rparr>"
  have c: "card (dom (DAList.lookup (DAList.update k v DAList.empty))) = 1" for k v :: pystr
    by (simp add: len_card [symmetric] len_def update.rep_eq empty.rep_eq)
  have a: "DAList.lookup ?f (lit ''a'') = Some (lit ''p'')"
          "DAList.lookup ?r (lit ''p'') = Some (lit ''a'')"
    by (simp_all add: lookup_update)
  have e: "card (dom (DAList.lookup (mapping ?G))) = card (dom (DAList.lookup (reverse_mapping ?G)))
        \<and> (\<forall>t p. DAList.lookup (mapping ?G) t = Some p
                   \<longrightarrow> DAList.lookup (reverse_mapping ?G) p = Some t)
        \<and> (\<forall>p t. DAList.lookup (reverse_mapping ?G) p = Some t
                   \<longrightarrow> DAList.lookup (mapping ?G) t = Some p)"
  proof (intro conjI)
    show "card (dom (DAList.lookup (mapping ?G)))
            = card (dom (DAList.lookup (reverse_mapping ?G)))"
      by (simp add: c)
    show "\<forall>t p. DAList.lookup (mapping ?G) t = Some p
                   \<longrightarrow> DAList.lookup (reverse_mapping ?G) p = Some t"
      by (auto simp: lookup_update split: if_splits)
    show "\<forall>p t. DAList.lookup (reverse_mapping ?G) p = Some t
                   \<longrightarrow> DAList.lookup (mapping ?G) t = Some p"
      by (auto simp: lookup_update split: if_splits)
  qed
  have g: "validate_integrity ?G = (Inr True, ?G)"
    unfolding validate_integrity_exact_inverses [of ?G] Eq_TrueI [OF e] by (rule refl)
  have "DAList.lookup (mapping ?B) (lit ''a'') = Some (lit ''p'')"
       "DAList.lookup (reverse_mapping ?B) (lit ''p'') \<noteq> Some (lit ''a'')"
    by (simp_all add: lookup_update lit_def)
  then have n: "\<not> (card (dom (DAList.lookup (mapping ?B)))
                  = card (dom (DAList.lookup (reverse_mapping ?B)))
        \<and> (\<forall>t p. DAList.lookup (mapping ?B) t = Some p
                   \<longrightarrow> DAList.lookup (reverse_mapping ?B) p = Some t)
        \<and> (\<forall>p t. DAList.lookup (reverse_mapping ?B) p = Some t
                   \<longrightarrow> DAList.lookup (mapping ?B) t = Some p))"
    by blast
  have b: "validate_integrity ?B = (Inr False, ?B)"
    unfolding validate_integrity_exact_inverses [of ?B] Eq_FalseI [OF n] by (rule refl)
  from a g b show ?thesis
    by (intro conjI)
qed

text \<open>
  Claim C8, as amended. Take the mapper in the state \<open>s\<close> that any sequence of \<open>redact\<close>
  calls has left it in, from whatever state it started, and one more call
  \<open>redact(t, c)\<close>, which leaves it in the state \<open>s'\<close>.

  \<^item> Every pair of the forward index of \<open>s\<close> is in the forward index of \<open>s'\<close>, with the
    same placeholder.
  \<^item> Every pair of the reverse index of \<open>s\<close>, placeholder \<open>q\<close> with text \<open>u\<close>, is in the
    reverse index of \<open>s'\<close> with the same text, unless the call meets \<open>t\<close> for the first
    time (\<open>t\<close> is not a key of the forward index) and returns \<open>q\<close>; then the reverse
    index of \<open>s'\<close> holds \<open>t\<close> for \<open>q\<close>.
  \<^item> Entries are created on a first encounter only: a call for a text that is a key of
    the forward index, and a call that raises, leave the mapper as it was; a call that
    meets its text for the first time and returns \<open>p\<close> sets the forward entry of \<open>t\<close> to
    \<open>p\<close> and the reverse entry of \<open>p\<close> to \<open>t\<close>, and nothing else.

  Hence a pair of the forward index is still there, with the same placeholder, after a
  whole sequence of calls.
\<close>

theorem entries_persist:
  "(let s = redact_calls upper self calls; s' = snd (redact upper s t c) in
      (\<forall>k v. DAList.lookup (mapping s) k = Some v \<longrightarrow> DAList.lookup (mapping s') k = Some v)
    \<and> (\<forall>q u. DAList.lookup (reverse_mapping s) q = Some u \<longrightarrow>
          DAList.lookup (reverse_mapping s') q
            = Some (if \<not> contains (mapping s) t \<and> fst (redact upper s t c) = Inr q
                    then t else u))
    \<and> (contains (mapping s) t \<or> (\<exists>e. fst (redact upper s t c) = Inl e) \<longrightarrow> s' = s)
    \<and> (\<forall>p. \<not> contains (mapping s) t \<and> fst (redact upper s t c) = Inr p \<longrightarrow>
          (\<forall>k. DAList.lookup (mapping s') k
                  = (if k = t then Some p else DAList.lookup (mapping s) k))
        \<and> (\<forall>q. DAList.lookup (reverse_mapping s') q
                  = (if q = p then Some t else DAList.lookup (reverse_mapping s) q))))
   \<and> (\<forall>k v. DAList.lookup (mapping self) k = Some v \<longrightarrow>
              DAList.lookup (mapping (redact_calls upper self calls)) k = Some v)"
  unfolding Let_def
proof (intro conjI allI impI)
  fix k v
  assume "DAList.lookup (mapping (redact_calls upper self calls)) k = Some v"
  then show "DAList.lookup (mapping (snd (redact upper (redact_calls upper self calls) t c))) k
               = Some v"
    by (rule redact_keeps_forward)
next
  fix q u
  assume "DAList.lookup (reverse_mapping (redact_calls upper self calls)) q = Some u"
  then show "DAList.lookup
               (reverse_mapping (snd (redact upper (redact_calls upper self calls) t c))) q
             = Some (if \<not> contains (mapping (redact_calls upper self calls)) t
                        \<and> fst (redact upper (redact_calls upper self calls) t c) = Inr q
                     then t else u)"
    by (rule redact_reverse_entry)
next
  assume "contains (mapping (redact_calls upper self calls)) t
          \<or> (\<exists>e. fst (redact upper (redact_calls upper self calls) t c) = Inl e)"
  then show "snd (redact upper (redact_calls upper self calls) t c)
               = redact_calls upper self calls"
    by (rule redact_no_store)
next
  fix p k
  assume "\<not> contains (mapping (redact_calls upper self calls)) t
          \<and> fst (redact upper (redact_calls upper self calls) t c) = Inr p"
  then show "DAList.lookup (mapping (snd (redact upper (redact_calls upper self calls) t c))) k
               = (if k = t then Some p
                  else DAList.lookup (mapping (redact_calls upper self calls)) k)"
    using redact_store_forward by blast
next
  fix p q
  assume "\<not> contains (mapping (redact_calls upper self calls)) t
          \<and> fst (redact upper (redact_calls upper self calls) t c) = Inr p"
  then show "DAList.lookup
               (reverse_mapping (snd (redact upper (redact_calls upper self calls) t c))) q
               = (if q = p then Some t
                  else DAList.lookup (reverse_mapping (redact_calls upper self calls)) q)"
    using redact_store_reverse by blast
next
  fix k v
  assume "DAList.lookup (mapping self) k = Some v"
  then show "DAList.lookup (mapping (redact_calls upper self calls)) k = Some v"
    by (rule redact_calls_keep_forward)
qed

text \<open>
  The theorem at work after the calls \<open>redact("95303", "x")\<close> and \<open>redact("69235")\<close> on a
  fresh mapper, which leave the reverse index with \<open>69235\<close> for \<open>[REDACTED_c11eb5e6]\<close>. A
  further \<open>redact("95303")\<close> would build that placeholder, but \<open>95303\<close> is a key already:
  nothing is stored and the pair stays. A further \<open>redact("abc")\<close> meets its text for the
  first time and returns another placeholder: the pair stays, and the new pair is added.
\<close>

theorem entries_persist_witness:
  "DAList.lookup (reverse_mapping (redact_calls ascii_upper init
        [(lit ''95303'', Some (lit ''x'')), (lit ''69235'', None)])) (lit ''[REDACTED_c11eb5e6]'')
     = Some (lit ''69235'')
   \<and> contains (mapping (redact_calls ascii_upper init
        [(lit ''95303'', Some (lit ''x'')), (lit ''69235'', None)])) (lit ''95303'')
   \<and> DAList.lookup (reverse_mapping (snd (redact ascii_upper (redact_calls ascii_upper init
        [(lit ''95303'', Some (lit ''x'')), (lit ''69235'', None)]) (lit ''95303'') None)))
        (lit ''[REDACTED_c11eb5e6]'')
     = Some (lit ''69235'')
   \<and> \<not> contains (mapping (redact_calls ascii_upper init
        [(lit ''95303'', Some (lit ''x'')), (lit ''69235'', None)])) (lit ''abc'')
   \<and> fst (redact ascii_upper (redact_calls ascii_upper init
        [(lit ''95303'', Some (lit ''x'')), (lit ''69235'', None)]) (lit ''abc'') None)
     = Inr (lit ''[REDACTED_ba7816bf]'')
   \<and> DAList.lookup (reverse_mapping (snd (redact ascii_upper (redact_calls ascii_upper init
        [(lit ''95303'', Some (lit ''x'')), (lit ''69235'', None)]) (lit ''abc'') None)))
        (lit ''[REDACTED_c11eb5e6]'')
     = Some (lit ''69235'')
   \<and> DAList.lookup (reverse_mapping (snd (redact ascii_upper (redact_calls ascii_upper init
        [(lit ''95303'', Some (lit ''x'')), (lit ''69235'', None)]) (lit ''abc'') None)))
        (lit ''[REDACTED_ba7816bf]'')
     = Some (lit ''abc'')"
proof -
  let ?s = "redact_calls ascii_upper init
        [(lit ''95303'', Some (lit ''x'')), (lit ''69235'', None)]"
  have a: "DAList.lookup (reverse_mapping ?s) (lit ''[REDACTED_c11eb5e6]'') = Some (lit ''69235'')"
    by (simp add: run_simps)
  have b: "contains (mapping ?s) (lit ''95303'')"
    by (simp add: run_simps)
  have c: "\<not> contains (mapping ?s) (lit ''abc'')"
    by (simp add: run_simps)
  have d: "fst (redact ascii_upper ?s (lit ''abc'') None) = Inr (lit ''[REDACTED_ba7816bf]'')"
    by (simp add: run_simps)
  have ne: "lit ''[REDACTED_c11eb5e6]'' \<noteq> lit ''[REDACTED_ba7816bf]''"
    by (simp add: lit_def)
  from entries_persist [of ascii_upper init
         "[(lit ''95303'', Some (lit ''x'')), (lit ''69235'', None)]" "lit ''95303''" None,
         unfolded Let_def] a b
  have e: "DAList.lookup (reverse_mapping (snd (redact ascii_upper ?s (lit ''95303'') None)))
             (lit ''[REDACTED_c11eb5e6]'') = Some (lit ''69235'')"
    by simp
  from entries_persist [of ascii_upper init
         "[(lit ''95303'', Some (lit ''x'')), (lit ''69235'', None)]" "lit ''abc''" None,
         unfolded Let_def] c d
  have all: "\<forall>q. DAList.lookup (reverse_mapping (snd (redact ascii_upper ?s (lit ''abc'') None))) q
               = (if q = lit ''[REDACTED_ba7816bf]'' then Some (lit ''abc'')
                  else DAList.lookup (reverse_mapping ?s) q)"
    by blast
  from all a ne
  have f: "DAList.lookup (reverse_mapping (snd (redact ascii_upper ?s (lit ''abc'') None)))
             (lit ''[REDACTED_c11eb5e6]'') = Some (lit ''69235'')"
    by simp
  from all
  have g: "DAList.lookup (reverse_mapping (snd (redact ascii_upper ?s (lit ''abc'') None)))
             (lit ''[REDACTED_ba7816bf]'') = Some (lit ''abc'')"
    by simp
  from a b e c d f g show ?thesis
    by (intro conjI)
qed

text \<open>
  The claim as it was made fails for the reverse index: after \<open>redact("69235")\<close> on a
  fresh mapper, \<open>redact("95303")\<close> meets its text for the first time, builds the
  placeholder that the reverse index maps to \<open>69235\<close>, and replaces the text.
\<close>

theorem entries_persist_counterexample:
  "DAList.lookup (reverse_mapping (snd (redact ascii_upper init (lit ''69235'') None)))
      (lit ''[REDACTED_c11eb5e6]'') = Some (lit ''69235'')
   \<and> DAList.lookup (reverse_mapping
         (snd (redact ascii_upper (snd (redact ascii_upper init (lit ''69235'') None))
                      (lit ''95303'') None)))
        (lit ''[REDACTED_c11eb5e6]'') = Some (lit ''95303'')
   \<and> lit ''95303'' \<noteq> lit ''69235''"
  by (simp add: run_simps)

text \<open>
  Claim C9, as amended. The empty string as category does what no category does: the two
  calls give the same result and the same mapper, for every text and state. For a text
  that is not in the forward index and has a UTF-8 encoding the placeholder returned is
  \<open>"[REDACTED_"\<close>, the digest prefix, \<open>"]"\<close>, where the digest prefix is 8 characters, each
  a hexadecimal digit in lower case. For a text that is not in the forward index the call
  returns a placeholder only if the text has a UTF-8 encoding.
\<close>

theorem redact_empty_category:
  "redact upper self t (Some []) = redact upper self t None
   \<and> (\<not> contains (mapping self) t \<longrightarrow>
        (\<forall>bs. encode t = Inr bs \<longrightarrow>
           fst (redact upper self t (Some []))
             = Inr (lit ''[REDACTED_'' @ lit (take 8 (hexdigest (sha256 bs))) @ lit '']'')
           \<and> length (take 8 (hexdigest (sha256 bs))) = 8
           \<and> set (take 8 (hexdigest (sha256 bs))) \<subseteq> set ''0123456789abcdef'')
        \<and> ((\<exists>p. fst (redact upper self t (Some [])) = Inr p) \<longleftrightarrow> (\<exists>bs. encode t = Inr bs)))"
proof (intro conjI impI allI)
  have "new_placeholder upper h (Some []) = new_placeholder upper h None" for h
    by (simp add: new_placeholder_def)
  then show "redact upper self t (Some []) = redact upper self t None"
    by (simp add: redact_def cong: sum.case_cong)
next
  fix bs assume "\<not> contains (mapping self) t" "encode t = Inr bs"
  then show "fst (redact upper self t (Some []))
             = Inr (lit ''[REDACTED_'' @ lit (take 8 (hexdigest (sha256 bs))) @ lit '']'')"
    by (simp add: redact_def new_placeholder_def text_hash_def Let_def)
next
  fix bs
  show "length (take 8 (hexdigest (sha256 bs))) = 8"
    by (rule length_digest_prefix)
next
  fix bs
  show "set (take 8 (hexdigest (sha256 bs))) \<subseteq> set ''0123456789abcdef''"
    by (rule set_digest_prefix)
next
  assume "\<not> contains (mapping self) t"
  with redact_returns_iff [of upper self t "Some []"]
  show "(\<exists>p. fst (redact upper self t (Some [])) = Inr p) \<longleftrightarrow> (\<exists>bs. encode t = Inr bs)"
    by simp
qed

text \<open>On a fresh mapper, \<open>redact("abc", "")\<close> returns \<open>[REDACTED_ba7816bf]\<close>.\<close>

theorem redact_empty_category_witness:
  "\<not> contains (mapping init) (lit ''abc'')
   \<and> encode (lit ''abc'') = Inr [0x61, 0x62, 0x63]
   \<and> take 8 (hexdigest (sha256 [0x61, 0x62, 0x63])) = ''ba7816bf''
   \<and> fst (redact ascii_upper init (lit ''abc'') (Some [])) = Inr (lit ''[REDACTED_ba7816bf]'')
   \<and> redact ascii_upper init (lit ''abc'') (Some []) = redact ascii_upper init (lit ''abc'') None"
proof -
  have a: "\<not> contains (mapping init) (lit ''abc'')"
    by (simp add: contains_def init_def)
  have h: "take 8 (hexdigest (sha256 [0x61, 0x62, 0x63])) = ''ba7816bf''"
    by (simp add: sha256_abc)
  from redact_empty_category [of ascii_upper init "lit ''abc''"] a encode_lit_abc
  have e: "redact ascii_upper init (lit ''abc'') (Some []) = redact ascii_upper init (lit ''abc'') None"
    and "fst (redact ascii_upper init (lit ''abc'') (Some []))
           = Inr (lit ''[REDACTED_'' @ lit (take 8 (hexdigest (sha256 [0x61, 0x62, 0x63])))
                  @ lit '']'')"
    by blast+
  then have "fst (redact ascii_upper init (lit ''abc'') (Some []))
               = Inr (lit ''[REDACTED_ba7816bf]'')"
    by (simp add: h lit_def)
  with a encode_lit_abc h e show ?thesis
    by (intro conjI)
qed

text \<open>
  The claim as it was made fails for a new text that is a lone surrogate: with the empty
  category \<open>redact\<close> produces no placeholder, it raises \<open>UnicodeEncodeError\<close>.
\<close>

theorem redact_empty_category_counterexample:
  "\<not> contains (mapping init) [0xD800]
   \<and> fst (redact ascii_upper init [0xD800] (Some [])) = Inl UnicodeEncodeError"
  by (simp add: run_simps)

text \<open>
  Claim C10. When the text is already a key of the forward index, \<open>redact\<close> with any
  category leaves the whole mapper, forward and reverse index, as it was.
\<close>

theorem redact_present_unchanged:
  assumes "contains (mapping self) t"
  shows "snd (redact upper self t c) = self"
  using assms by (simp add: redact_def)

text \<open>The second call for \<open>abc\<close>, now with a category.\<close>

theorem redact_present_unchanged_witness:
  "contains (mapping (snd (redact ascii_upper init (lit ''abc'') None))) (lit ''abc'')
   \<and> snd (redact ascii_upper (snd (redact ascii_upper init (lit ''abc'') None)) (lit ''abc'')
             (Some (lit ''email'')))
       = snd (redact ascii_upper init (lit ''abc'') None)"
proof -
  have a: "contains (mapping (snd (redact ascii_upper init (lit ''abc'') None))) (lit ''abc'')"
    by (simp add: run_simps)
  from redact_present_unchanged [OF a] a show ?thesis
    by simp
qed

end
